theory Spec2Isabelle
  imports Main "HOL-Library.Code_Target_Nat"
begin

section \<open>JavaScript strings\<close>

text \<open>
  A JavaScript string is a sequence of UTF-16 code units. A code unit is modelled as a
  natural number and a string as a list of them, so that \<open>length\<close> is the
  \<^verbatim>\<open>.length\<close> of the source. Literals of the source are ASCII and are written
  \<open>js ''...''\<close>.
\<close>

type_synonym jschar = nat
type_synonym jsstring = "jschar list"

definition js :: "string \<Rightarrow> jsstring" where
  "js s = map of_char s"

text \<open>
  \<^verbatim>\<open>String.prototype.trim\<close> removes the ECMAScript WhiteSpace and LineTerminator code
  units from both ends.
\<close>

definition is_js_space :: "jschar \<Rightarrow> bool" where
  "is_js_space c \<longleftrightarrow>
     (0x09 \<le> c \<and> c \<le> 0x0D) \<or> c = 0x20 \<or> c = 0xA0 \<or> c = 0x1680 \<or>
     (0x2000 \<le> c \<and> c \<le> 0x200A) \<or> c = 0x2028 \<or> c = 0x2029 \<or> c = 0x202F \<or>
     c = 0x205F \<or> c = 0x3000 \<or> c = 0xFEFF"

definition trim :: "jsstring \<Rightarrow> jsstring" where
  "trim s = rev (dropWhile is_js_space (rev (dropWhile is_js_space s)))"

text \<open>\<^verbatim>\<open>s.startsWith(p)\<close> and \<^verbatim>\<open>s.includes(p)\<close>.\<close>

definition startsWith :: "jsstring \<Rightarrow> jsstring \<Rightarrow> bool" where
  "startsWith s p \<longleftrightarrow> take (length p) s = p"

fun includes_str :: "jsstring \<Rightarrow> jsstring \<Rightarrow> bool" where
  "includes_str [] p = (p = [])"
| "includes_str (c # cs) p = (startsWith (c # cs) p \<or> includes_str cs p)"

text \<open>\<^verbatim>\<open>parts.join(sep)\<close> on an array of strings.\<close>

fun join :: "jsstring \<Rightarrow> jsstring list \<Rightarrow> jsstring" where
  "join sep [] = []"
| "join sep [x] = x"
| "join sep (x # y # ys) = x @ sep @ join sep (y # ys)"

text \<open>
  \<^verbatim>\<open>s.replace(/p/g, '')\<close> for a literal pattern \<open>p\<close>: the matches are found from
  left to right in the original string, and the result is not scanned again.
\<close>

fun remove_all :: "jsstring \<Rightarrow> jsstring \<Rightarrow> jsstring" where
  "remove_all p [] = []"
| "remove_all p (c # cs) =
     (if p \<noteq> [] \<and> startsWith (c # cs) p then remove_all p (drop (length p) (c # cs))
      else c # remove_all p cs)"

text \<open>
  \<^verbatim>\<open>String.prototype.toLowerCase\<close>. Below U+0100 the mapping is the one of Unicode:
  the letters A to Z and the Latin-1 capitals. Of the code units above, the two whose
  lower-case form contains an ASCII letter are modelled: U+0130 becomes the two code units
  U+0069 U+0307 (the only mapping that changes the length of a string) and U+212A becomes
  U+006B. The other code units are left as they are; their lower-case forms have the same
  number of code units and no ASCII letter, which is all that the tests of the source
  (length and the search for an ASCII marker) depend on.
\<close>

definition lower_unit :: "jschar \<Rightarrow> jsstring" where
  "lower_unit c =
     (if (0x41 \<le> c \<and> c \<le> 0x5A) \<or> (0xC0 \<le> c \<and> c \<le> 0xDE \<and> c \<noteq> 0xD7) then [c + 0x20]
      else if c = 0x130 then [0x69, 0x307]
      else if c = 0x212A then [0x6B]
      else [c])"

definition toLowerCase :: "jsstring \<Rightarrow> jsstring" where
  "toLowerCase s = concat (map lower_unit s)"

section \<open>JavaScript values\<close>

text \<open>
  The source observes a number only through \<^verbatim>\<open>String(n)\<close> and through its truthiness,
  and both are determined by the canonical text of the number. A number is therefore
  represented by that text: a non-empty string over the characters that
  \<^verbatim>\<open>Number.prototype.toString\<close> can produce (digits, sign, point, exponent mark, and the
  letters of \<^verbatim>\<open>Infinity\<close> and \<^verbatim>\<open>NaN\<close>).
\<close>

definition numeric_chars :: "jschar set" where
  "numeric_chars = set (js ''0123456789+-.eInfinityNaN'')"

typedef jsnum = "{s :: jsstring. s \<noteq> [] \<and> set s \<subseteq> numeric_chars}"
  by (rule exI [of _ "js ''0''"]) (simp add: numeric_chars_def js_def)

definition numToString :: "jsnum \<Rightarrow> jsstring" where
  "numToString n = Rep_jsnum n"

instantiation jsnum :: equal
begin

definition equal_jsnum :: "jsnum \<Rightarrow> jsnum \<Rightarrow> bool" where
  "equal_jsnum a b \<longleftrightarrow> Rep_jsnum a = Rep_jsnum b"

instance
  by standard (simp add: equal_jsnum_def Rep_jsnum_inject)

end

datatype jsval =
    JUndefined
  | JNull
  | JBool bool
  | JNum jsnum
  | JStr jsstring
  | JArr "jsval list"
  | JObj "(jsstring \<times> jsval) list"

text \<open>
  An object is the list of its own properties. \<open>getOwn\<close> reads a property
  (\<open>JUndefined\<close> when it is absent) and \<open>putOwn\<close> defines one, keeping the place of
  a key that is already there.
\<close>

fun getOwn :: "(jsstring \<times> jsval) list \<Rightarrow> jsstring \<Rightarrow> jsval" where
  "getOwn [] k = JUndefined"
| "getOwn ((k', v) # kvs) k = (if k' = k then v else getOwn kvs k)"

fun putOwn :: "jsstring \<Rightarrow> jsval \<Rightarrow> (jsstring \<times> jsval) list \<Rightarrow> (jsstring \<times> jsval) list" where
  "putOwn k v [] = [(k, v)]"
| "putOwn k v ((k', v') # kvs) = (if k' = k then (k, v) # kvs else (k', v') # putOwn k v kvs)"

text \<open>Truthiness: what \<^verbatim>\<open>!v\<close>, \<^verbatim>\<open>v || d\<close> and \<^verbatim>\<open>if (v)\<close> test.\<close>

fun truthy :: "jsval \<Rightarrow> bool" where
  "truthy JUndefined = False"
| "truthy JNull = False"
| "truthy (JBool b) = b"
| "truthy (JNum n) = (numToString n \<noteq> js ''0'' \<and> numToString n \<noteq> js ''NaN'')"
| "truthy (JStr s) = (s \<noteq> [])"
| "truthy (JArr vs) = True"
| "truthy (JObj kvs) = True"

section \<open>JSON.parse\<close>

text \<open>
  The JSON grammar of ECMA-404, as \<^verbatim>\<open>JSON.parse\<close> reads it. The conversion of a number
  literal to the number it denotes is the host's (\<open>toNumber\<close>, a parameter). The parser
  is a recursive descent with a fuel argument; \<open>Exhausted\<close> is kept apart from a syntax
  error, and \<open>JSON_parse\<close> supplies fuel that is never used up.
\<close>

datatype presult = Parsed jsval jsstring | SyntaxError | Exhausted

definition is_json_ws :: "jschar \<Rightarrow> bool" where
  "is_json_ws c \<longleftrightarrow> c = 0x20 \<or> c = 0x09 \<or> c = 0x0A \<or> c = 0x0D"

definition skip_ws :: "jsstring \<Rightarrow> jsstring" where
  "skip_ws cs = dropWhile is_json_ws cs"

definition is_digit :: "jschar \<Rightarrow> bool" where
  "is_digit c \<longleftrightarrow> 0x30 \<le> c \<and> c \<le> 0x39"

definition hex_val :: "jschar \<Rightarrow> nat option" where
  "hex_val c =
     (if 0x30 \<le> c \<and> c \<le> 0x39 then Some (c - 0x30)
      else if 0x41 \<le> c \<and> c \<le> 0x46 then Some (c - 0x37)
      else if 0x61 \<le> c \<and> c \<le> 0x66 then Some (c - 0x57)
      else None)"

text \<open>The single-character escapes: quote, backslash, slash, b, f, n, r, t.\<close>

definition unescape :: "jschar \<Rightarrow> jschar option" where
  "unescape e =
     (if e = 0x22 \<or> e = 0x5C \<or> e = 0x2F then Some e
      else if e = 0x62 then Some 0x08
      else if e = 0x66 then Some 0x0C
      else if e = 0x6E then Some 0x0A
      else if e = 0x72 then Some 0x0D
      else if e = 0x74 then Some 0x09
      else None)"

text \<open>The characters of a string literal after its opening quote, up to the closing one.\<close>

fun parse_str :: "jsstring \<Rightarrow> (jsstring \<times> jsstring) option" where
  "parse_str [] = None"
| "parse_str (c # cs) =
     (if c = 0x22 then Some ([], cs)
      else if c = 0x5C then
        (case cs of
           [] \<Rightarrow> None
         | e # cs1 \<Rightarrow>
             if e = 0x75 then
               (case cs1 of
                  h1 # h2 # h3 # h4 # cs2 \<Rightarrow>
                    (case (hex_val h1, hex_val h2, hex_val h3, hex_val h4) of
                       (Some a, Some b, Some c', Some d) \<Rightarrow>
                         (case parse_str cs2 of
                            Some (s, r) \<Rightarrow> Some ((((a * 16 + b) * 16 + c') * 16 + d) # s, r)
                          | None \<Rightarrow> None)
                     | _ \<Rightarrow> None)
                | _ \<Rightarrow> None)
             else
               (case unescape e of
                  Some u \<Rightarrow>
                    (case parse_str cs1 of Some (s, r) \<Rightarrow> Some (u # s, r) | None \<Rightarrow> None)
                | None \<Rightarrow> None))
      else if c < 0x20 then None
      else (case parse_str cs of Some (s, r) \<Rightarrow> Some (c # s, r) | None \<Rightarrow> None))"

text \<open>
  A number literal: an optional minus, an integer part without a leading zero, an optional
  fraction and an optional exponent. The result is the literal and the rest of the input.
\<close>

definition digits1 :: "jsstring \<Rightarrow> (jsstring \<times> jsstring) option" where
  "digits1 cs =
     (if takeWhile is_digit cs = [] then None
      else Some (takeWhile is_digit cs, dropWhile is_digit cs))"

definition parse_int_part :: "jsstring \<Rightarrow> (jsstring \<times> jsstring) option" where
  "parse_int_part cs =
     (case cs of
        [] \<Rightarrow> None
      | c # r \<Rightarrow>
          if c = 0x30 then Some ([c], r)
          else if is_digit c then Some (c # takeWhile is_digit r, dropWhile is_digit r)
          else None)"

definition parse_frac :: "jsstring \<Rightarrow> (jsstring \<times> jsstring) option" where
  "parse_frac cs =
     (case cs of
        c # r \<Rightarrow>
          if c = 0x2E then
            (case digits1 r of Some (ds, r') \<Rightarrow> Some (c # ds, r') | None \<Rightarrow> None)
          else Some ([], cs)
      | [] \<Rightarrow> Some ([], cs))"

definition parse_exp :: "jsstring \<Rightarrow> (jsstring \<times> jsstring) option" where
  "parse_exp cs =
     (case cs of
        c # r \<Rightarrow>
          if c = 0x65 \<or> c = 0x45 then
            (case r of
               s # r1 \<Rightarrow>
                 if s = 0x2B \<or> s = 0x2D then
                   (case digits1 r1 of Some (ds, r') \<Rightarrow> Some (c # s # ds, r') | None \<Rightarrow> None)
                 else
                   (case digits1 r of Some (ds, r') \<Rightarrow> Some (c # ds, r') | None \<Rightarrow> None)
             | [] \<Rightarrow> None)
          else Some ([], cs)
      | [] \<Rightarrow> Some ([], cs))"

definition parse_unsigned :: "jsstring \<Rightarrow> (jsstring \<times> jsstring) option" where
  "parse_unsigned cs =
     (case parse_int_part cs of
        None \<Rightarrow> None
      | Some (i, r1) \<Rightarrow>
          (case parse_frac r1 of
             None \<Rightarrow> None
           | Some (f, r2) \<Rightarrow>
               (case parse_exp r2 of
                  None \<Rightarrow> None
                | Some (e, r3) \<Rightarrow> Some (i @ f @ e, r3))))"

definition parse_number :: "jsstring \<Rightarrow> (jsstring \<times> jsstring) option" where
  "parse_number cs =
     (case cs of
        c # r \<Rightarrow>
          if c = 0x2D then
            (case parse_unsigned r of Some (l, r') \<Rightarrow> Some (c # l, r') | None \<Rightarrow> None)
          else parse_unsigned cs
      | [] \<Rightarrow> None)"

fun parse_value :: "(jsstring \<Rightarrow> jsnum) \<Rightarrow> nat \<Rightarrow> jsstring \<Rightarrow> presult"
  and parse_elems :: "(jsstring \<Rightarrow> jsnum) \<Rightarrow> nat \<Rightarrow> jsval list \<Rightarrow> jsstring \<Rightarrow> presult"
  and parse_members ::
    "(jsstring \<Rightarrow> jsnum) \<Rightarrow> nat \<Rightarrow> (jsstring \<times> jsval) list \<Rightarrow> jsstring \<Rightarrow> presult"
where
  "parse_value toNumber 0 cs = Exhausted"
| "parse_value toNumber (Suc n) cs =
     (case skip_ws cs of
        [] \<Rightarrow> SyntaxError
      | c # r \<Rightarrow>
          if c = 0x7B then
            (case skip_ws r of
               [] \<Rightarrow> SyntaxError
             | c1 # r1 \<Rightarrow>
                 if c1 = 0x7D then Parsed (JObj []) r1 else parse_members toNumber n [] r)
          else if c = 0x5B then
            (case skip_ws r of
               [] \<Rightarrow> SyntaxError
             | c1 # r1 \<Rightarrow>
                 if c1 = 0x5D then Parsed (JArr []) r1 else parse_elems toNumber n [] r)
          else if c = 0x22 then
            (case parse_str r of Some (s, r1) \<Rightarrow> Parsed (JStr s) r1 | None \<Rightarrow> SyntaxError)
          else if startsWith (c # r) (js ''true'') then Parsed (JBool True) (drop 4 (c # r))
          else if startsWith (c # r) (js ''false'') then Parsed (JBool False) (drop 5 (c # r))
          else if startsWith (c # r) (js ''null'') then Parsed JNull (drop 4 (c # r))
          else
            (case parse_number (c # r) of
               Some (l, r1) \<Rightarrow> Parsed (JNum (toNumber l)) r1
             | None \<Rightarrow> SyntaxError))"
| "parse_elems toNumber 0 acc cs = Exhausted"
| "parse_elems toNumber (Suc n) acc cs =
     (case parse_value toNumber n cs of
        Parsed v r \<Rightarrow>
          (case skip_ws r of
             [] \<Rightarrow> SyntaxError
           | c # r1 \<Rightarrow>
               if c = 0x2C then parse_elems toNumber n (acc @ [v]) r1
               else if c = 0x5D then Parsed (JArr (acc @ [v])) r1
               else SyntaxError)
      | SyntaxError \<Rightarrow> SyntaxError
      | Exhausted \<Rightarrow> Exhausted)"
| "parse_members toNumber 0 acc cs = Exhausted"
| "parse_members toNumber (Suc n) acc cs =
     (case skip_ws cs of
        [] \<Rightarrow> SyntaxError
      | c # r \<Rightarrow>
          if c = 0x22 then
            (case parse_str r of
               None \<Rightarrow> SyntaxError
             | Some (k, r1) \<Rightarrow>
                 (case skip_ws r1 of
                    [] \<Rightarrow> SyntaxError
                  | c1 # r2 \<Rightarrow>
                      if c1 = 0x3A then
                        (case parse_value toNumber n r2 of
                           Parsed v r3 \<Rightarrow>
                             (case skip_ws r3 of
                                [] \<Rightarrow> SyntaxError
                              | c3 # r4 \<Rightarrow>
                                  if c3 = 0x2C then parse_members toNumber n (putOwn k v acc) r4
                                  else if c3 = 0x7D then Parsed (JObj (putOwn k v acc)) r4
                                  else SyntaxError)
                         | SyntaxError \<Rightarrow> SyntaxError
                         | Exhausted \<Rightarrow> Exhausted)
                      else SyntaxError))
          else SyntaxError)"

text \<open>
  \<^verbatim>\<open>JSON.parse(src)\<close>: one value, white space around it, and nothing else. \<open>None\<close>
  is the \<^verbatim>\<open>SyntaxError\<close> the source catches.
\<close>

definition JSON_parse :: "(jsstring \<Rightarrow> jsnum) \<Rightarrow> jsstring \<Rightarrow> jsval option" where
  "JSON_parse toNumber src =
     (case parse_value toNumber (2 * length src + 2) src of
        Parsed v r \<Rightarrow> if skip_ws r = [] then Some v else None
      | SyntaxError \<Rightarrow> None
      | Exhausted \<Rightarrow> None)"

subsection \<open>The size of a parsed value and the fuel of the parser\<close>

text \<open>
  The weight of a value counts its strings by their length. The value that the parser
  returns weighs no more than the text it was read from, and the parser never uses up
  the fuel that \<open>JSON_parse\<close> gives it.
\<close>

fun weight :: "jsval \<Rightarrow> nat" where
  "weight (JStr s) = Suc (length s)"
| "weight (JArr vs) = Suc (sum_list (map weight vs))"
| "weight (JObj kvs) = Suc (sum_list (map (\<lambda>kv. weight (snd kv)) kvs))"
| "weight v = 1"

lemma length_skip_ws: "length (skip_ws cs) \<le> length cs"
  by (simp add: skip_ws_def length_dropWhile_le)

lemma skip_ws_Cons: "skip_ws cs = c # r \<Longrightarrow> length r < length cs"
  using length_skip_ws [of cs] by simp

lemma parse_str_length: "parse_str cs = Some (s, r) \<Longrightarrow> length s + length r < length cs"
proof (induction cs arbitrary: s r rule: length_induct)
  case (1 xs)
  have IH: "\<And>ys s' r'. length ys < length xs \<Longrightarrow> parse_str ys = Some (s', r')
      \<Longrightarrow> length s' + length r' < length ys"
    using "1.IH" by blast
  show ?case
  proof (cases xs)
    case Nil
    with "1.prems" show ?thesis by simp
  next
    case (Cons c cs)
    with "1.prems" show ?thesis
      by (auto split: if_splits list.splits option.splits prod.splits dest!: IH [rotated])
  qed
qed

lemma digits1_length: "digits1 cs = Some (l, r) \<Longrightarrow> length r < length cs"
  by (cases cs) (auto simp: digits1_def split: if_splits intro: le_imp_less_Suc length_dropWhile_le)

lemma parse_int_part_length: "parse_int_part cs = Some (l, r) \<Longrightarrow> length r < length cs"
  by (auto simp: parse_int_part_def split: list.splits if_splits intro: le_imp_less_Suc length_dropWhile_le)

lemma parse_frac_length: "parse_frac cs = Some (l, r) \<Longrightarrow> length r \<le> length cs"
  by (auto simp: parse_frac_def split: list.splits if_splits option.splits dest!: digits1_length)

lemma parse_exp_length: "parse_exp cs = Some (l, r) \<Longrightarrow> length r \<le> length cs"
  by (auto simp: parse_exp_def split: list.splits if_splits option.splits dest!: digits1_length)

lemma parse_unsigned_length: "parse_unsigned cs = Some (l, r) \<Longrightarrow> length r < length cs"
  by (auto simp: parse_unsigned_def split: option.splits
      dest!: parse_int_part_length parse_frac_length parse_exp_length)

lemma parse_number_length: "parse_number cs = Some (l, r) \<Longrightarrow> length r < length cs"
  by (auto simp: parse_number_def split: list.splits if_splits option.splits
      dest!: parse_unsigned_length)

lemma weight_putOwn:
  "sum_list (map (\<lambda>kv. weight (snd kv)) (putOwn k v acc))
     \<le> sum_list (map (\<lambda>kv. weight (snd kv)) acc) + weight v"
  by (induction acc) auto


abbreviation sumw :: "jsval list \<Rightarrow> nat" where
  "sumw vs \<equiv> sum_list (map weight vs)"

abbreviation sumwm :: "(jsstring \<times> jsval) list \<Rightarrow> nat" where
  "sumwm kvs \<equiv> sum_list (map (\<lambda>kv. weight (snd kv)) kvs)"

lemma parse_weight:
  "(parse_value h n cs = Parsed v r \<longrightarrow> weight v + length r \<le> length cs) \<and>
   (parse_elems h n acc cs = Parsed v r \<longrightarrow>
      (\<exists>vs. v = JArr vs \<and> sumw vs + length r < sumw acc + length cs)) \<and>
   (parse_members h n macc cs = Parsed v r \<longrightarrow>
      (\<exists>kvs. v = JObj kvs \<and> sumwm kvs + length r < sumwm macc + length cs))"
proof (induction n arbitrary: cs v r acc macc)
  case 0
  show ?case by simp
next
  case (Suc n)
  have IHv: "\<And>cs v r. parse_value h n cs = Parsed v r \<Longrightarrow> weight v + length r \<le> length cs"
    using Suc.IH by blast
  have IHe: "\<And>cs v r acc. parse_elems h n acc cs = Parsed v r \<Longrightarrow>
      \<exists>vs. v = JArr vs \<and> sumw vs + length r < sumw acc + length cs"
    using Suc.IH by blast
  have IHm: "\<And>cs v r macc. parse_members h n macc cs = Parsed v r \<Longrightarrow>
      \<exists>kvs. v = JObj kvs \<and> sumwm kvs + length r < sumwm macc + length cs"
    using Suc.IH by blast
  have V: "weight v + length r \<le> length cs" if A: "parse_value h (Suc n) cs = Parsed v r"
  proof (cases "skip_ws cs")
    case Nil
    with A show ?thesis by simp
  next
    case (Cons c r0)
    have L0: "length r0 < length cs" using Cons by (rule skip_ws_Cons)
    consider (obj) "c = 0x7B" | (arr) "c = 0x5B" | (str) "c = 0x22"
      | (other) "c \<noteq> 0x7B" "c \<noteq> 0x5B" "c \<noteq> 0x22" by blast
    then show ?thesis
    proof cases
      case obj
      show ?thesis
      proof (cases "skip_ws r0")
        case Nil
        with A Cons obj show ?thesis by simp
      next
        case (Cons c1 r1)
        have L1: "length r1 < length r0" using Cons by (rule skip_ws_Cons)
        show ?thesis
        proof (cases "c1 = 0x7D")
          case True
          with A \<open>skip_ws cs = c # r0\<close> obj Cons L0 L1 show ?thesis by auto
        next
          case False
          with A \<open>skip_ws cs = c # r0\<close> obj Cons
          have "parse_members h n [] r0 = Parsed v r" by simp
          from IHm [OF this] L0 show ?thesis by auto
        qed
      qed
    next
      case arr
      show ?thesis
      proof (cases "skip_ws r0")
        case Nil
        with A Cons arr show ?thesis by simp
      next
        case (Cons c1 r1)
        have L1: "length r1 < length r0" using Cons by (rule skip_ws_Cons)
        show ?thesis
        proof (cases "c1 = 0x5D")
          case True
          with A \<open>skip_ws cs = c # r0\<close> arr Cons L0 L1 show ?thesis by auto
        next
          case False
          with A \<open>skip_ws cs = c # r0\<close> arr Cons
          have "parse_elems h n [] r0 = Parsed v r" by simp
          from IHe [OF this] L0 show ?thesis by auto
        qed
      qed
    next
      case str
      with A Cons L0 show ?thesis
        by (auto split: option.splits dest!: parse_str_length)
    next
      case other
      have L: "length (drop k (c # r0)) \<le> length r0 + 1" for k by simp
      from other A Cons L0 show ?thesis
        by (auto split: if_splits option.splits dest!: parse_number_length)
    qed
  qed
  have E: "\<exists>vs. v = JArr vs \<and> sumw vs + length r < sumw acc + length cs"
    if A: "parse_elems h (Suc n) acc cs = Parsed v r"
  proof -
    from A obtain v1 r1 where P: "parse_value h n cs = Parsed v1 r1"
      by (auto split: presult.splits)
    from IHv [OF P] have W: "weight v1 + length r1 \<le> length cs" .
    from A P obtain c r2 where S: "skip_ws r1 = c # r2"
      by (auto split: list.splits)
    have L: "length r2 < length r1" using S by (rule skip_ws_Cons)
    show ?thesis
    proof (cases "c = 0x2C")
      case True
      with A P S have "parse_elems h n (acc @ [v1]) r2 = Parsed v r" by simp
      from IHe [OF this] W L show ?thesis by auto
    next
      case False
      with A P S W L show ?thesis by (auto split: if_splits)
    qed
  qed
  have M: "\<exists>kvs. v = JObj kvs \<and> sumwm kvs + length r < sumwm macc + length cs"
    if A: "parse_members h (Suc n) macc cs = Parsed v r"
  proof -
    from A obtain c r0 where S0: "skip_ws cs = c # r0" and C: "c = 0x22"
      by (auto split: list.splits if_splits)
    have L0: "length r0 < length cs" using S0 by (rule skip_ws_Cons)
    from A S0 C obtain k r1 where K: "parse_str r0 = Some (k, r1)"
      by (auto split: option.splits)
    have L1: "length r1 < length r0" using parse_str_length [OF K] by simp
    from A S0 C K obtain c1 r2 where S1: "skip_ws r1 = c1 # r2" and C1: "c1 = 0x3A"
      by (auto split: list.splits if_splits)
    have L2: "length r2 < length r1" using S1 by (rule skip_ws_Cons)
    from A S0 C K S1 C1 obtain v1 r3 where P: "parse_value h n r2 = Parsed v1 r3"
      by (auto split: presult.splits)
    from IHv [OF P] have W: "weight v1 + length r3 \<le> length r2" .
    from A S0 C K S1 C1 P obtain c3 r4 where S3: "skip_ws r3 = c3 # r4"
      by (auto split: list.splits)
    have L3: "length r4 < length r3" using S3 by (rule skip_ws_Cons)
    have PW: "sumwm (putOwn k v1 macc) \<le> sumwm macc + weight v1" by (rule weight_putOwn)
    show ?thesis
    proof (cases "c3 = 0x2C")
      case True
      with A S0 C K S1 C1 P S3 have "parse_members h n (putOwn k v1 macc) r4 = Parsed v r"
        by simp
      from IHm [OF this] PW W L0 L1 L2 L3 show ?thesis by auto
    next
      case False
      with A S0 C K S1 C1 P S3 have "v = JObj (putOwn k v1 macc)" "r = r4"
        by (auto split: if_splits)
      with PW W L0 L1 L2 L3 show ?thesis by auto
    qed
  qed
  from V E M show ?case by blast
qed

lemma parse_value_weight:
  "parse_value h n cs = Parsed v r \<Longrightarrow> weight v + length r \<le> length cs"
  using parse_weight [of h n cs v r] by blast

lemma JSON_parse_weight: "JSON_parse h s = Some v \<Longrightarrow> weight v \<le> length s"
proof -
  assume A: "JSON_parse h s = Some v"
  then obtain r where "parse_value h (2 * length s + 2) s = Parsed v r"
    unfolding JSON_parse_def by (auto split: presult.splits if_splits)
  from parse_value_weight [OF this] show ?thesis by simp
qed


lemma weight_pos: "0 < weight v"
  by (cases v) auto

lemma parse_fuel:
  "(2 * length cs < n \<longrightarrow> parse_value h n cs \<noteq> Exhausted) \<and>
   (2 * length cs + 1 < n \<longrightarrow> parse_elems h n acc cs \<noteq> Exhausted) \<and>
   (2 * length cs + 1 < n \<longrightarrow> parse_members h n macc cs \<noteq> Exhausted)"
proof (induction n arbitrary: cs acc macc)
  case 0
  show ?case by simp
next
  case (Suc n)
  have IHv: "\<And>cs. 2 * length cs < n \<Longrightarrow> parse_value h n cs \<noteq> Exhausted"
    using Suc.IH by blast
  have IHe: "\<And>cs acc. 2 * length cs + 1 < n \<Longrightarrow> parse_elems h n acc cs \<noteq> Exhausted"
    using Suc.IH by blast
  have IHm: "\<And>cs macc. 2 * length cs + 1 < n \<Longrightarrow> parse_members h n macc cs \<noteq> Exhausted"
    using Suc.IH by blast
  have V: "parse_value h (Suc n) cs \<noteq> Exhausted" if B: "2 * length cs < Suc n"
  proof (cases "skip_ws cs")
    case Nil
    then show ?thesis by simp
  next
    case (Cons c r0)
    have L0: "length r0 < length cs" using Cons by (rule skip_ws_Cons)
    have Fm: "parse_members h n [] r0 \<noteq> Exhausted" using IHm [of r0 "[]"] L0 B by simp
    have Fe: "parse_elems h n [] r0 \<noteq> Exhausted" using IHe [of r0 "[]"] L0 B by simp
    from Cons Fm Fe show ?thesis
      by (simp split: list.splits option.splits)
  qed
  have E: "parse_elems h (Suc n) acc cs \<noteq> Exhausted" if B: "2 * length cs + 1 < Suc n"
  proof (cases "parse_value h n cs")
    case (Parsed v1 r1)
    have W: "weight v1 + length r1 \<le> length cs" using Parsed by (rule parse_value_weight)
    show ?thesis
    proof (cases "skip_ws r1")
      case Nil
      with Parsed show ?thesis by simp
    next
      case (Cons c r2)
      have L: "length r2 < length r1" using Cons by (rule skip_ws_Cons)
      have "parse_elems h n (acc @ [v1]) r2 \<noteq> Exhausted"
        using IHe [of r2 "acc @ [v1]"] W L B weight_pos [of v1] by simp
      with Parsed Cons show ?thesis by simp
    qed
  next
    case SyntaxError
    then show ?thesis by simp
  next
    case Exhausted
    with IHv [of cs] B show ?thesis by simp
  qed
  have M: "parse_members h (Suc n) macc cs \<noteq> Exhausted" if B: "2 * length cs + 1 < Suc n"
  proof (cases "skip_ws cs")
    case Nil
    then show ?thesis by simp
  next
    case (Cons c r0)
    note S0 = Cons
    have L0: "length r0 < length cs" using Cons by (rule skip_ws_Cons)
    show ?thesis
    proof (cases "parse_str r0")
      case None
      with S0 show ?thesis by simp
    next
      case (Some kr)
      obtain k r1 where kr: "kr = (k, r1)" by (cases kr)
      have L1: "length r1 < length r0" using parse_str_length [of r0 k r1] Some kr by simp
      show ?thesis
      proof (cases "skip_ws r1")
        case Nil
        with S0 Some kr show ?thesis by simp
      next
        case (Cons c1 r2)
        note S1 = Cons
        have L2: "length r2 < length r1" using Cons by (rule skip_ws_Cons)
        show ?thesis
        proof (cases "parse_value h n r2")
          case (Parsed v1 r3)
          have W: "weight v1 + length r3 \<le> length r2" using Parsed by (rule parse_value_weight)
          show ?thesis
          proof (cases "skip_ws r3")
            case Nil
            with S0 Some kr S1 Parsed show ?thesis by simp
          next
            case (Cons c3 r4)
            have L3: "length r4 < length r3" using Cons by (rule skip_ws_Cons)
            have "parse_members h n (putOwn k v1 macc) r4 \<noteq> Exhausted"
              using IHm [of r4 "putOwn k v1 macc"] W L0 L1 L2 L3 B by simp
            with S0 Some kr S1 Parsed Cons show ?thesis by simp
          qed
        next
          case SyntaxError
          with S0 Some kr S1 show ?thesis by simp
        next
          case Exhausted
          with IHv [of r2] L0 L1 L2 B have False by simp
          then show ?thesis ..
        qed
      qed
    qed
  qed
  from V E M show ?case by blast
qed

lemma JSON_parse_fuel: "parse_value h (2 * length s + 2) s \<noteq> Exhausted"
  using parse_fuel [of s "2 * length s + 2" h] by simp

section \<open>sanitizeString\<close>

text \<open>The text that the default conversion of an object to a string gives.\<close>

definition artifact :: jsstring where
  "artifact = js ''[object Object]''"

text \<open>
  The loop over the priority keys: the value under the first key that is neither
  \<^verbatim>\<open>undefined\<close> nor \<^verbatim>\<open>null\<close>.
\<close>

definition priorityKeys :: "jsstring list" where
  "priorityKeys =
     [js ''text'', js ''value'', js ''displayValue'', js ''brand'', js ''name'', js ''message'']"

fun nullish :: "jsval \<Rightarrow> bool" where
  "nullish JUndefined = True"
| "nullish JNull = True"
| "nullish v = False"

fun first_priority :: "(jsstring \<times> jsval) list \<Rightarrow> jsstring list \<Rightarrow> jsval option" where
  "first_priority kvs [] = None"
| "first_priority kvs (key # keys) =
     (if \<not> nullish (getOwn kvs key) then Some (getOwn kvs key) else first_priority kvs keys)"

lemma length_trim: "length (trim s) \<le> length s"
proof -
  have "length (trim s) \<le> length (dropWhile is_js_space s)"
    unfolding trim_def using length_dropWhile_le [of is_js_space "rev (dropWhile is_js_space s)"]
    by simp
  also have "\<dots> \<le> length s" by (rule length_dropWhile_le)
  finally show ?thesis .
qed

lemma weight_member: "v \<in> set vs \<Longrightarrow> weight v \<le> sumw vs"
  by (induction vs) auto

lemma weight_snd_member: "kv \<in> set kvs \<Longrightarrow> weight (snd kv) \<le> sumwm kvs"
  by (induction kvs) auto

lemma getOwn_member: "\<not> nullish (getOwn kvs k) \<Longrightarrow> \<exists>kv \<in> set kvs. getOwn kvs k = snd kv"
  by (induction kvs) (auto split: if_splits)

lemma first_priority_weight: "first_priority kvs ks = Some v \<Longrightarrow> weight v \<le> sumwm kvs"
proof (induction ks)
  case Nil
  then show ?case by simp
next
  case (Cons key ks)
  show ?case
  proof (cases "nullish (getOwn kvs key)")
    case True
    with Cons show ?thesis by simp
  next
    case False
    with Cons.prems have "v = getOwn kvs key" by simp
    with getOwn_member [OF False] show ?thesis by (auto dest: weight_snd_member)
  qed
qed

text \<open>Every recursive call of \<open>sanitizeString\<close> is on a value of smaller weight.\<close>

lemma weight_parsed: "JSON_parse h (trim val) = Some p \<Longrightarrow> weight p < weight (JStr val)"
  using JSON_parse_weight [of h "trim val" p] length_trim [of val] by simp

lemma weight_element: "x \<in> set vs \<Longrightarrow> weight x < weight (JArr vs)"
  using weight_member [of x vs] by simp

lemma weight_priority: "first_priority kvs ks = Some v \<Longrightarrow> weight v < weight (JObj kvs)"
  using first_priority_weight [of kvs ks v] by simp

lemma weight_single: "length kvs = 1 \<Longrightarrow> weight (snd (hd kvs)) < weight (JObj kvs)"
proof -
  assume "length kvs = 1"
  then have "hd kvs \<in> set kvs" by (cases kvs) auto
  then show ?thesis using weight_snd_member [of "hd kvs" kvs] by simp
qed

text \<open>
  \<open>sanitizeString\<close>, case by case as in the source. Its first argument is the
  conversion of number literals that \<^verbatim>\<open>JSON.parse\<close> uses. The last statements of the
  source, for a value of another type, are not reached by the values modelled here. The
  recursion is not structural (a string is parsed and the result sanitized), and
  terminates because the weight decreases. The call stack of the host is left out here;
  \<open>sanitizeString_at\<close> below has it.
\<close>

function sanitizeString :: "(jsstring \<Rightarrow> jsnum) \<Rightarrow> jsval \<Rightarrow> jsstring" where
  \<open>sanitizeString toNumber JUndefined = []\<close>
| \<open>sanitizeString toNumber JNull = []\<close>
| \<open>sanitizeString toNumber (JStr val) =
     (let trimmed = trim val in
      if trimmed = artifact \<or> startsWith trimmed (js ''{"'') \<or> startsWith trimmed (js ''{'') then
        (case JSON_parse toNumber trimmed of
           Some p \<Rightarrow> sanitizeString toNumber p
         | None \<Rightarrow> if trimmed = artifact then [] else trimmed)
      else if val = artifact then [] else val)\<close>
| \<open>sanitizeString toNumber (JNum n) = numToString n\<close>
| \<open>sanitizeString toNumber (JBool b) = (if b then js ''true'' else js ''false'')\<close>
| \<open>sanitizeString toNumber (JArr vs) =
     join (js '', '') (filter (\<lambda>s. s \<noteq> []) (map (sanitizeString toNumber) vs))\<close>
| \<open>sanitizeString toNumber (JObj kvs) =
     (case first_priority kvs priorityKeys of
        Some v \<Rightarrow> sanitizeString toNumber v
      | None \<Rightarrow> if length kvs = 1 then sanitizeString toNumber (snd (hd kvs)) else [])\<close>
  by pat_completeness auto

termination
proof (relation "measure (\<lambda>(h, v). weight v)")
  show "wf (measure (\<lambda>(h :: jsstring \<Rightarrow> jsnum, v). weight v))" by simp
next
  fix toNumber val trimmed p
  assume "trimmed = trim val" and "JSON_parse toNumber trimmed = Some p"
  then show "((toNumber, p), (toNumber, JStr val)) \<in> measure (\<lambda>(h, v). weight v)"
    using weight_parsed [of toNumber val p] by simp
next
  fix toNumber :: "jsstring \<Rightarrow> jsnum" and vs :: "jsval list" and x
  assume "x \<in> set vs"
  then show "((toNumber, x), (toNumber, JArr vs)) \<in> measure (\<lambda>(h, v). weight v)"
    using weight_element [of x vs] by simp
next
  fix toNumber :: "jsstring \<Rightarrow> jsnum" and kvs v
  assume "first_priority kvs priorityKeys = Some v"
  then show "((toNumber, v), (toNumber, JObj kvs)) \<in> measure (\<lambda>(h, v). weight v)"
    using weight_priority [of kvs priorityKeys v] by simp
next
  fix toNumber :: "jsstring \<Rightarrow> jsnum" and kvs :: "(jsstring \<times> jsval) list"
  assume "length kvs = 1"
  then show "((toNumber, snd (hd kvs)), (toNumber, JObj kvs)) \<in> measure (\<lambda>(h, v). weight v)"
    using weight_single [of kvs] by simp
qed


text \<open>
  \<open>single_piece\<close> follows the recursion of \<open>sanitizeString\<close> and tells whether
  the result is produced without joining two or more non-empty array elements.
\<close>

function single_piece :: "(jsstring \<Rightarrow> jsnum) \<Rightarrow> jsval \<Rightarrow> bool" where
  \<open>single_piece toNumber JUndefined = True\<close>
| \<open>single_piece toNumber JNull = True\<close>
| \<open>single_piece toNumber (JStr val) =
     (let trimmed = trim val in
      if trimmed = artifact \<or> startsWith trimmed (js ''{"'') \<or> startsWith trimmed (js ''{'') then
        (case JSON_parse toNumber trimmed of
           Some p \<Rightarrow> single_piece toNumber p
         | None \<Rightarrow> True)
      else True)\<close>
| \<open>single_piece toNumber (JNum n) = True\<close>
| \<open>single_piece toNumber (JBool b) = True\<close>
| \<open>single_piece toNumber (JArr vs) =
     (case filter (\<lambda>v. sanitizeString toNumber v \<noteq> []) vs of
        [] \<Rightarrow> True
      | v # rest \<Rightarrow> rest = [] \<and> single_piece toNumber v)\<close>
| \<open>single_piece toNumber (JObj kvs) =
     (case first_priority kvs priorityKeys of
        Some v \<Rightarrow> single_piece toNumber v
      | None \<Rightarrow> if length kvs = 1 then single_piece toNumber (snd (hd kvs)) else True)\<close>
  by pat_completeness auto
termination
proof (relation "measure (\<lambda>(h, v). weight v)")
  show "wf (measure (\<lambda>(h :: jsstring \<Rightarrow> jsnum, v). weight v))" by simp
next
  fix toNumber val trimmed p
  assume "trimmed = trim val" and "JSON_parse toNumber trimmed = Some p"
  then show "((toNumber, p), (toNumber, JStr val)) \<in> measure (\<lambda>(h, v). weight v)"
    using weight_parsed [of toNumber val p] by simp
next
  fix toNumber :: "jsstring \<Rightarrow> jsnum" and vs :: "jsval list" and v rest
  assume "filter (\<lambda>v. sanitizeString toNumber v \<noteq> []) vs = v # rest"
  then have "v \<in> set (filter (\<lambda>v. sanitizeString toNumber v \<noteq> []) vs)" by simp
  then have "v \<in> set vs" by simp
  then show "((toNumber, v), (toNumber, JArr vs)) \<in> measure (\<lambda>(h, v). weight v)"
    using weight_element [of v vs] by simp
next
  fix toNumber :: "jsstring \<Rightarrow> jsnum" and kvs v
  assume "first_priority kvs priorityKeys = Some v"
  then show "((toNumber, v), (toNumber, JObj kvs)) \<in> measure (\<lambda>(h, v). weight v)"
    using weight_priority [of kvs priorityKeys v] by simp
next
  fix toNumber :: "jsstring \<Rightarrow> jsnum" and kvs :: "(jsstring \<times> jsval) list"
  assume "length kvs = 1"
  then show "((toNumber, snd (hd kvs)), (toNumber, JObj kvs)) \<in> measure (\<lambda>(h, v). weight v)"
    using weight_single [of kvs] by simp
qed

section \<open>Reading properties\<close>

text \<open>
  \<open>readProp v k\<close> is \<^verbatim>\<open>v.k\<close> for a value \<open>v\<close> that is neither \<^verbatim>\<open>null\<close> nor
  \<^verbatim>\<open>undefined\<close> (on those the access throws a \<^verbatim>\<open>TypeError\<close>, which is written out
  where the source can meet it). None of the property names that the source reads is a
  property of a string, a number, a boolean or an array, so that only an object can
  answer with something else than \<^verbatim>\<open>undefined\<close>.
\<close>

fun readProp :: "jsval \<Rightarrow> jsstring \<Rightarrow> jsval" where
  "readProp (JObj kvs) k = getOwn kvs k"
| "readProp v k = JUndefined"

text \<open>\<^verbatim>\<open>v || d\<close>.\<close>

definition orElse :: "jsval \<Rightarrow> jsval \<Rightarrow> jsval" where
  "orElse v d = (if truthy v then v else d)"

text \<open>
  The values that can take a new property. Assigning to a property of a primitive throws
  a \<^verbatim>\<open>TypeError\<close>: the source is an ECMAScript module, hence strict-mode code.
\<close>

fun isObject :: "jsval \<Rightarrow> bool" where
  "isObject (JObj kvs) = True"
| "isObject (JArr vs) = True"
| "isObject v = False"

text \<open>
  The exceptions of the source: the two that its calls to the provider and the missing
  response text raise, the two of the extraction, the \<^verbatim>\<open>TypeError\<close> of a property
  access on \<^verbatim>\<open>null\<close> or of an assignment to a primitive, and the \<^verbatim>\<open>RangeError\<close> of
  a call that does not fit on the call stack.
\<close>

datatype error =
  ProviderError | NoResponseText | JsonParseFailed | NoJsonStructure | TypeError | RangeError

section \<open>sanitizeString on the call stack of the host\<close>

text \<open>
  The recursion of the source runs on the call stack of the host, which admits only so
  many nested calls; a call that does not fit raises a \<^verbatim>\<open>RangeError\<close>.
  \<open>sanitizeString_at\<close> is \<open>sanitizeString\<close> with that bound: its second argument is
  the number of nested activations of \<^verbatim>\<open>sanitizeString\<close> that the stack still admits,
  and each recursive call has one less. The recursive call on the parsed value of a
  string is inside the \<^verbatim>\<open>try\<close> of the source, whose \<^verbatim>\<open>catch\<close> has no binding and
  catches every exception, the \<^verbatim>\<open>RangeError\<close> as well, and returns the trimmed text.
  The recursive calls on the elements of an array and on the member of an object are
  outside any \<^verbatim>\<open>try\<close>: their exception leaves \<^verbatim>\<open>sanitizeString\<close>. The stack that
  \<^verbatim>\<open>JSON.parse\<close> itself needs is not modelled.

  \<open>collect\<close> gives the results of \<^verbatim>\<open>map\<close>, or the first exception that its callback
  raises.
\<close>

fun collect :: "(error + 'a) list \<Rightarrow> error + 'a list" where
  "collect [] = Inr []"
| "collect (x # xs) =
     (case x of
        Inl e \<Rightarrow> Inl e
      | Inr r \<Rightarrow> (case collect xs of Inl e \<Rightarrow> Inl e | Inr rs \<Rightarrow> Inr (r # rs)))"

fun sanitizeString_at :: "(jsstring \<Rightarrow> jsnum) \<Rightarrow> nat \<Rightarrow> jsval \<Rightarrow> error + jsstring" where
  \<open>sanitizeString_at toNumber 0 val = Inl RangeError\<close>
| \<open>sanitizeString_at toNumber (Suc d) val =
     (case val of
        JUndefined \<Rightarrow> Inr []
      | JNull \<Rightarrow> Inr []
      | JStr str \<Rightarrow>
          (let trimmed = trim str in
           if trimmed = artifact \<or> startsWith trimmed (js ''{"'') \<or> startsWith trimmed (js ''{'')
           then
             (case JSON_parse toNumber trimmed of
                Some p \<Rightarrow>
                  (case sanitizeString_at toNumber d p of
                     Inr r \<Rightarrow> Inr r
                   | Inl e \<Rightarrow> Inr (if trimmed = artifact then [] else trimmed))
              | None \<Rightarrow> Inr (if trimmed = artifact then [] else trimmed))
           else Inr (if str = artifact then [] else str))
      | JNum n \<Rightarrow> Inr (numToString n)
      | JBool b \<Rightarrow> Inr (if b then js ''true'' else js ''false'')
      | JArr vs \<Rightarrow>
          (case collect (map (sanitizeString_at toNumber d) vs) of
             Inl e \<Rightarrow> Inl e
           | Inr rs \<Rightarrow> Inr (join (js '', '') (filter (\<lambda>s. s \<noteq> []) rs)))
      | JObj kvs \<Rightarrow>
          (case first_priority kvs priorityKeys of
             Some v \<Rightarrow> sanitizeString_at toNumber d v
           | None \<Rightarrow>
               if length kvs = 1 then sanitizeString_at toNumber d (snd (hd kvs)) else Inr []))\<close>


section \<open>analyzePrescription\<close>

subsection \<open>Extraction of the JSON value from the response text\<close>

text \<open>
  \<^verbatim>\<open>text.replace(/```json/g, '').replace(/```/g, '').trim()\<close>
\<close>

definition cleanedText :: "jsstring \<Rightarrow> jsstring" where
  "cleanedText t = trim (remove_all (js ''```'') (remove_all (js ''```json'') t))"

text \<open>
  \<^verbatim>\<open>text.match(/\{[\s\S]*\}/)\<close>: the match starts at the first opening brace and, the
  star being greedy, ends at the last closing brace after it; there is no match when
  there is no such pair.
\<close>

definition jsonMatch :: "jsstring \<Rightarrow> jsstring option" where
  "jsonMatch t =
     (let fromBrace = dropWhile (\<lambda>c. c \<noteq> 0x7B) t;
          toBrace = rev (dropWhile (\<lambda>c. c \<noteq> 0x7D) (rev fromBrace))
      in if toBrace = [] then None else Some toBrace)"

definition extractJson :: "(jsstring \<Rightarrow> jsnum) \<Rightarrow> jsstring \<Rightarrow> error + jsval" where
  "extractJson toNumber t =
     (case JSON_parse toNumber (cleanedText t) of
        Some parsed \<Rightarrow> Inr parsed
      | None \<Rightarrow>
          (case jsonMatch t of
             Some m \<Rightarrow>
               (case JSON_parse toNumber m of
                  Some parsed \<Rightarrow> Inr parsed
                | None \<Rightarrow> Inl JsonParseFailed)
           | None \<Rightarrow> Inl NoJsonStructure))"

subsection \<open>Normalization of the parsed value\<close>

record Medication =
  prescribed_brand :: jsstring
  active_salt :: jsstring
  jan_aushadhi_generic :: jsstring
  brand_price_est :: jsstring
  jan_aushadhi_price_est :: jsstring
  savings_est :: jsstring

record Metadata =
  doctor :: jsstring
  date :: jsstring
  currency :: jsstring

record Summary =
  en :: jsstring
  hi :: jsstring
  te :: jsstring
  ta :: jsstring
  kn :: jsstring
  bn :: jsstring
  mr :: jsstring

record AnalysisResult =
  metadata :: Metadata
  medications :: "Medication list"
  bhashini_summary :: Summary
  disclaimer :: jsstring

text \<open>The function mapped over the medication entries (an entry that is not nullish).\<close>

definition sanitizeMedication :: "(jsstring \<Rightarrow> jsnum) \<Rightarrow> jsval \<Rightarrow> Medication" where
  "sanitizeMedication toNumber m =
     \<lparr> prescribed_brand = sanitizeString toNumber (readProp m (js ''prescribed_brand'')),
       active_salt = sanitizeString toNumber (readProp m (js ''active_salt'')),
       jan_aushadhi_generic = sanitizeString toNumber (readProp m (js ''jan_aushadhi_generic'')),
       brand_price_est = sanitizeString toNumber (readProp m (js ''brand_price_est'')),
       jan_aushadhi_price_est = sanitizeString toNumber (readProp m (js ''jan_aushadhi_price_est'')),
       savings_est = sanitizeString toNumber (readProp m (js ''savings_est'')) \<rparr>"

text \<open>
  The entries that are mapped: \<^verbatim>\<open>parsed.medications\<close> after the default of the source,
  which replaces whatever is not an array by the empty array.
\<close>

definition medicationEntries :: "jsval \<Rightarrow> jsval list" where
  "medicationEntries parsed =
     (case readProp parsed (js ''medications'') of JArr ms \<Rightarrow> ms | _ \<Rightarrow> [])"

text \<open>The predicate of the filter.\<close>

definition keepMedication :: "Medication \<Rightarrow> bool" where
  "keepMedication m =
     (let brand = toLowerCase (prescribed_brand m)
      in brand \<noteq> [] \<and> 1 < length brand \<and>
         \<not> includes_str brand (js ''not provided'') \<and>
         \<not> includes_str brand (js ''illegible''))"

text \<open>
  The statements of the source after the parse, in their order. The places where it
  throws are: the assignment of a default to a property of a parsed value that is a
  primitive (a primitive has no \<^verbatim>\<open>metadata\<close>, so the assignment is always tried), the
  read of a field of a medication entry that is \<^verbatim>\<open>null\<close>, and the assignment to
  \<^verbatim>\<open>parsed.metadata.doctor\<close> when the metadata is a primitive. The result is the value
  returned, seen through the fields of \<^verbatim>\<open>AnalysisResult\<close>.
\<close>

definition normalize :: "(jsstring \<Rightarrow> jsnum) \<Rightarrow> jsval \<Rightarrow> error + AnalysisResult" where
  "normalize toNumber parsed0 =
     (let parsed = (if truthy parsed0 then parsed0 else JObj []) in
      if \<not> isObject parsed then Inl TypeError
      else
        let md = orElse (readProp parsed (js ''metadata'')) (JObj []);
            meds = medicationEntries parsed;
            s = orElse (readProp parsed (js ''bhashini_summary'')) (JObj [])
        in
          if list_ex nullish meds then Inl TypeError
          else if \<not> isObject md then Inl TypeError
          else Inr
            \<lparr> metadata =
                \<lparr> doctor = sanitizeString toNumber
                    (orElse (readProp md (js ''doctor'')) (JStr (js ''Not provided in image''))),
                  date = sanitizeString toNumber
                    (orElse (readProp md (js ''date'')) (JStr (js ''Not provided in image''))),
                  currency = sanitizeString toNumber
                    (orElse (readProp md (js ''currency'')) (JStr (js ''INR''))) \<rparr>,
              medications = filter keepMedication (map (sanitizeMedication toNumber) meds),
              bhashini_summary =
                \<lparr> en = sanitizeString toNumber
                    (orElse (readProp s (js ''en'')) (JStr (js ''Analysis complete.''))),
                  hi = sanitizeString toNumber (readProp s (js ''hi'')),
                  te = sanitizeString toNumber (readProp s (js ''te'')),
                  ta = sanitizeString toNumber (readProp s (js ''ta'')),
                  kn = sanitizeString toNumber (readProp s (js ''kn'')),
                  bn = sanitizeString toNumber (readProp s (js ''bn'')),
                  mr = sanitizeString toNumber (readProp s (js ''mr'')) \<rparr>,
              disclaimer = sanitizeString toNumber (readProp parsed (js ''disclaimer'')) \<rparr>)"

text \<open>
  \<open>analyzePrescription\<close> after the call of the provider, whose outcome is an argument:
  an error, or the text of the response (\<open>None\<close> when the response has none). Every
  error is thrown again by the handler of the source.
\<close>

definition analyzePrescription ::
  "(jsstring \<Rightarrow> jsnum) \<Rightarrow> error + jsstring option \<Rightarrow> error + AnalysisResult" where
  "analyzePrescription toNumber response =
     (case response of
        Inl e \<Rightarrow> Inl e
      | Inr None \<Rightarrow> Inl NoResponseText
      | Inr (Some t) \<Rightarrow>
          if t = [] then Inl NoResponseText
          else
            (case extractJson toNumber t of
               Inl e \<Rightarrow> Inl e
             | Inr parsed \<Rightarrow> normalize toNumber parsed))"

section \<open>findNearestStore\<close>

record StoreLocation =
  name :: jsstring
  address :: jsstring
  mapUri :: jsstring

text \<open>
  The response of the provider, as the source reads it: the list of candidates, which
  may be absent, and the text, which is a string or absent.
\<close>

record GenerateContentResponse =
  candidates :: "jsval list option"
  responseText :: "jsstring option"

text \<open>The three variables that the loop over the grounding chunks updates.\<close>

record ScanState =
  scanUri :: jsstring
  scanName :: jsstring
  snippets :: jsstring

definition placeholderName :: jsstring where
  "placeholderName = js ''Jan Aushadhi Kendra''"

text \<open>The body of the \<^verbatim>\<open>forEach\<close> callback; reading \<^verbatim>\<open>chunk.maps\<close> of a nullish chunk throws.\<close>

definition scanChunk :: "(jsstring \<Rightarrow> jsnum) \<Rightarrow> jsval \<Rightarrow> ScanState \<Rightarrow> error + ScanState" where
  "scanChunk toNumber chunk st =
     (if nullish chunk then Inl TypeError
      else
        let maps = readProp chunk (js ''maps'') in
        if truthy maps then
          let uri = readProp maps (js ''uri'');
              st1 = (if truthy uri then st\<lparr>scanUri := sanitizeString toNumber uri\<rparr> else st);
              title = readProp maps (js ''title'');
              st2 = (if truthy title then st1\<lparr>scanName := sanitizeString toNumber title\<rparr> else st1);
              sources = readProp maps (js ''placeAnswerSources'');
              reviewSnippets =
                (if nullish sources then JUndefined else readProp sources (js ''reviewSnippets''))
          in
            if truthy reviewSnippets then
              (case reviewSnippets of
                 JArr s \<Rightarrow>
                   Inr (st2\<lparr>snippets :=
                     snippets st2 @ js '' '' @ join (js ''. '') (map (sanitizeString toNumber) s)\<rparr>)
               | _ \<Rightarrow> Inr st2)
            else Inr st2
        else Inr st)"

fun scanChunks :: "(jsstring \<Rightarrow> jsnum) \<Rightarrow> jsval list \<Rightarrow> ScanState \<Rightarrow> error + ScanState" where
  "scanChunks toNumber [] st = Inr st"
| "scanChunks toNumber (chunk # chunks) st =
     (case scanChunk toNumber chunk st of
        Inl e \<Rightarrow> Inl e
      | Inr st' \<Rightarrow> scanChunks toNumber chunks st')"

text \<open>The map-search address built from the coordinates.\<close>

definition searchUri :: "jsnum \<Rightarrow> jsnum \<Rightarrow> jsstring" where
  "searchUri lat lng =
     js ''https://www.google.com/maps/search/Pradhan+Mantri+Bhartiya+Janaushadhi+Kendra/@''
       @ numToString lat @ js '','' @ numToString lng @ js '',15z''"

text \<open>
  The statements after the loop: the address from the text of the response, or else from
  the placeholder and the snippets; the constructed map address when the loop has left
  none; and the returned object.
\<close>

definition storeFromScan ::
  "(jsstring \<Rightarrow> jsnum) \<Rightarrow> jsnum \<Rightarrow> jsnum \<Rightarrow> GenerateContentResponse \<Rightarrow> ScanState
     \<Rightarrow> StoreLocation" where
  "storeFromScan toNumber lat lng response st =
     (let rawText = (case responseText response of Some t \<Rightarrow> t | None \<Rightarrow> []);
          address0 = sanitizeString toNumber (JStr (trim (remove_all (js ''*'') rawText)));
          address1 =
            (if address0 = [] \<or> length address0 < 5 then
               js ''Jan Aushadhi Kendra (Verified Store)''
                 @ (if snippets st \<noteq> [] then js '': '' @ snippets st else [])
             else address0);
          mapUri1 = (if scanUri st = [] then searchUri lat lng else scanUri st);
          name1 = sanitizeString toNumber (JStr (scanName st))
      in \<lparr> name = (if name1 \<noteq> [] then name1 else placeholderName),
           address = sanitizeString toNumber (JStr address1),
           mapUri = sanitizeString toNumber (JStr mapUri1) \<rparr>)"

text \<open>
  The block under \<^verbatim>\<open>try\<close>, with the outcome of the call of the provider as an argument.
  \<open>Inr None\<close> is the \<^verbatim>\<open>return null\<close> of the source. A \<^verbatim>\<open>TypeError\<close> is thrown by the
  read of a property of a nullish first candidate, by \<^verbatim>\<open>forEach\<close> on chunks that are
  not an array, and inside the loop.
\<close>

definition findNearestStore_try ::
  "(jsstring \<Rightarrow> jsnum) \<Rightarrow> jsnum \<Rightarrow> jsnum \<Rightarrow> error + GenerateContentResponse
     \<Rightarrow> error + StoreLocation option" where
  "findNearestStore_try toNumber lat lng outcome =
     (case outcome of
        Inl e \<Rightarrow> Inl e
      | Inr response \<Rightarrow>
          (case candidates response of
             None \<Rightarrow> Inr None
           | Some [] \<Rightarrow> Inr None
           | Some (candidate # others) \<Rightarrow>
               if nullish candidate then Inl TypeError
               else
                 let md = readProp candidate (js ''groundingMetadata'');
                     chunks =
                       orElse (if nullish md then JUndefined else readProp md (js ''groundingChunks''))
                         (JArr [])
                 in
                   (case chunks of
                      JArr cs \<Rightarrow>
                        (case scanChunks toNumber cs
                            \<lparr>scanUri = [], scanName = placeholderName, snippets = []\<rparr> of
                           Inl e \<Rightarrow> Inl e
                         | Inr st \<Rightarrow> Inr (Some (storeFromScan toNumber lat lng response st)))
                    | _ \<Rightarrow> Inl TypeError)))"

text \<open>
  \<open>findNearestStore\<close>: the handler logs whatever was thrown and returns \<^verbatim>\<open>null\<close>.
\<close>

definition findNearestStore ::
  "(jsstring \<Rightarrow> jsnum) \<Rightarrow> jsnum \<Rightarrow> jsnum \<Rightarrow> error + GenerateContentResponse
     \<Rightarrow> StoreLocation option" where
  "findNearestStore toNumber lat lng outcome =
     (case findNearestStore_try toNumber lat lng outcome of
        Inl e \<Rightarrow> None
      | Inr result \<Rightarrow> result)"

section \<open>Definitions used to state the properties\<close>

text \<open>
  The condition on a sanitized brand for its entry to be kept, in the words of the
  specification, with the length taken of the lower-cased brand: longer than one code
  unit and, whatever the case of its letters, without the two markers.
\<close>

definition brand_accepted :: "jsstring \<Rightarrow> bool" where
  "brand_accepted b \<longleftrightarrow>
     1 < length (toLowerCase b) \<and>
     \<not> includes_str (toLowerCase b) (js ''not provided'') \<and>
     \<not> includes_str (toLowerCase b) (js ''illegible'')"

text \<open>
  The empty array inside \<open>n\<close> arrays, each the only element of the next: the value of
  the JSON text of \<open>n + 1\<close> opening brackets followed by as many closing ones.
\<close>

fun nested_arrays :: "nat \<Rightarrow> jsval" where
  "nested_arrays 0 = JArr []"
| "nested_arrays (Suc n) = JArr [nested_arrays n]"

text \<open>
  A JSON text whose only member is an array of two strings that, joined by the separator
  of \<open>sanitizeString\<close>, form the JSON text of an object. The text is
  \<^verbatim>\<open>{"a":["{\"b\":\"x","y\"}"]}\<close> (the code unit \<open>0x5C\<close> is the backslash); its two
  strings are \<^verbatim>\<open>{"b":"x\<close> and \<^verbatim>\<open>y"}\<close>.
\<close>

definition nested_pieces :: jsstring where
  \<open>nested_pieces =
     js ''{"a":["{'' @ [0x5C] @ js ''"b'' @ [0x5C] @ js ''":'' @ [0x5C] @ js ''"x","y''
       @ [0x5C] @ js ''"}"]}''\<close>

text \<open>
  A JSON text whose only member is an array of two strings that, joined, form the JSON
  text of an object with two members, none of them under a priority key. The text is
  \<^verbatim>\<open>{"text":["{\"a\":1","\"b\":2}"]}\<close>; its two strings are \<^verbatim>\<open>{"a":1\<close> and
  \<^verbatim>\<open>"b":2}\<close>, and their join is \<^verbatim>\<open>{"a":1, "b":2}\<close>.
\<close>

definition two_member_pieces :: jsstring where
  \<open>two_member_pieces =
     js ''{"text":["{'' @ [0x5C] @ js ''"a'' @ [0x5C] @ js ''":1","'' @ [0x5C] @ js ''"b''
       @ [0x5C] @ js ''":2}"]}''\<close>

text \<open>A response with one candidate whose only grounding chunk has the given map address.\<close>

definition response_with_uri :: "jsval \<Rightarrow> GenerateContentResponse" where
  "response_with_uri uri =
     \<lparr> candidates = Some
         [JObj [(js ''groundingMetadata'',
            JObj [(js ''groundingChunks'',
              JArr [JObj [(js ''maps'', JObj [(js ''uri'', uri)])]])])]],
       responseText = None \<rparr>"

section \<open>Properties of sanitizeString\<close>


subsection \<open>The artifact and the characters of the results\<close>

lemma artifact_chars: "artifact = [91, 111, 98, 106, 101, 99, 116, 32, 79, 98, 106, 101, 99, 116, 93]"
  by (simp add: artifact_def js_def)

lemma comma_not_in_artifact: "0x2C \<notin> set artifact"
  by (simp add: artifact_chars)

lemma numToString_not_artifact: "numToString n \<noteq> artifact"
proof
  assume "numToString n = artifact"
  moreover have "set (numToString n) \<subseteq> numeric_chars"
    using Rep_jsnum [of n] by (simp add: numToString_def)
  ultimately have "set artifact \<subseteq> numeric_chars" by simp
  then show False by (simp add: artifact_chars numeric_chars_def js_def)
qed

lemma bool_not_artifact: "(if b then js ''true'' else js ''false'') \<noteq> artifact"
  by (simp add: artifact_chars js_def)

lemma artifact_nonempty: "artifact \<noteq> []"
  by (simp add: artifact_chars)

lemma comma_in_join: "0x2C \<in> set (join (js '', '') (x # y # ys))"
  by (simp add: js_def)

lemma join_not_artifact:
  assumes "\<forall>x \<in> set xs. x \<noteq> artifact"
  shows "join (js '', '') xs \<noteq> artifact"
proof (cases xs)
  case Nil
  then show ?thesis using artifact_nonempty by simp
next
  case (Cons x ys)
  note xs = Cons
  show ?thesis
  proof (cases ys)
    case Nil
    with xs assms show ?thesis by simp
  next
    case (Cons y zs)
    with xs have "0x2C \<in> set (join (js '', '') xs)" by (simp only: comma_in_join)
    with comma_not_in_artifact show ?thesis by metis
  qed
qed

lemma sanitizeString_not_artifact: "sanitizeString toNumber x \<noteq> artifact"
proof (induction toNumber x rule: sanitizeString.induct)
  case (1 toNumber)
  show ?case using artifact_nonempty by simp
next
  case (2 toNumber)
  show ?case using artifact_nonempty by simp
next
  case (3 toNumber val)
  show ?case
  proof (cases "JSON_parse toNumber (trim val)")
    case None
    then show ?thesis using artifact_nonempty by (simp add: Let_def)
  next
    case (Some p)
    show ?thesis
    proof (cases "trim val = artifact \<or> startsWith (trim val) (js [CHR ''{'', CHR 0x22])
        \<or> startsWith (trim val) (js ''{'')")
      case True
      with Some "3.IH" [OF refl True Some] show ?thesis by (simp add: Let_def)
    next
      case False
      then show ?thesis using artifact_nonempty by (simp add: Let_def)
    qed
  qed
next
  case (4 toNumber n)
  show ?case by (simp add: numToString_not_artifact)
next
  case (5 toNumber b)
  show ?case using bool_not_artifact [of b] by simp
next
  case (6 toNumber vs)
  have "\<forall>r \<in> set (filter (\<lambda>s. s \<noteq> []) (map (sanitizeString toNumber) vs)). r \<noteq> artifact"
    using "6.IH" by auto
  then show ?case by (simp add: join_not_artifact)
next
  case (7 toNumber kvs)
  then show ?case
    using artifact_nonempty by (auto split: option.splits)
qed

lemma dropWhile_fixed: "xs = [] \<or> \<not> P (hd xs) \<Longrightarrow> dropWhile P xs = xs"
  by (cases xs) auto

lemma trim_fixed:
  assumes "s = [] \<or> (\<not> is_js_space (hd s) \<and> \<not> is_js_space (last s))"
  shows "trim s = s"
proof (cases "s = []")
  case True
  then show ?thesis by (simp add: trim_def)
next
  case False
  with assms have H: "\<not> is_js_space (hd s)" and L: "\<not> is_js_space (last s)" by auto
  have "dropWhile is_js_space s = s" using H by (intro dropWhile_fixed) simp
  moreover have "dropWhile is_js_space (rev s) = rev s"
    using L False by (intro dropWhile_fixed) (simp add: hd_rev)
  ultimately show ?thesis by (simp add: trim_def)
qed

lemma trim_ends:
  assumes "trim s \<noteq> []"
  shows "\<not> is_js_space (hd (trim s)) \<and> \<not> is_js_space (last (trim s))"
proof -
  define d where "d = dropWhile is_js_space s"
  define e where "e = dropWhile is_js_space (rev d)"
  have t: "trim s = rev e" by (simp add: trim_def d_def e_def)
  with assms have e: "e \<noteq> []" by simp
  then have "\<not> is_js_space (hd e)" unfolding e_def by (rule hd_dropWhile)
  then have A: "\<not> is_js_space (last (trim s))" using e t by (simp add: last_rev)
  from e have d: "d \<noteq> []" unfolding e_def by auto
  then have "\<not> is_js_space (hd d)" unfolding d_def by (rule hd_dropWhile)
  moreover obtain p where "rev d = p @ e"
    unfolding e_def by (metis takeWhile_dropWhile_id)
  then have "last e = last (rev d)" using e by simp
  then have "hd (trim s) = hd d" using t e d by (simp add: hd_rev last_rev)
  ultimately show ?thesis using A by simp
qed

lemma trim_idem: "trim (trim s) = trim s"
  using trim_ends [of s] by (intro trim_fixed) blast

lemma startsWith_brace: "startsWith t (js ''{'') \<longleftrightarrow> t \<noteq> [] \<and> hd t = 0x7B"
  by (cases t) (auto simp: startsWith_def js_def)

lemma startsWith_brace_quote: "startsWith t (js [CHR ''{'', CHR 0x22]) \<Longrightarrow> startsWith t (js ''{'')"
  by (cases t) (auto simp: startsWith_def js_def split: list.splits dest: arg_cong [where f = hd]) 

lemma artifact_no_brace: "\<not> startsWith artifact (js ''{'')"
  by (simp add: startsWith_brace artifact_chars)

lemma trim_artifact: "trim artifact = artifact"
  by (intro trim_fixed) (simp add: artifact_chars is_js_space_def)

lemma sanitizeString_plain:
  "\<not> startsWith (trim x) (js ''{'') \<Longrightarrow> trim x \<noteq> artifact \<Longrightarrow> sanitizeString h (JStr x) = x"
  using startsWith_brace_quote [of "trim x"] trim_artifact by (auto simp: Let_def)

lemma sanitizeString_unparsed:
  "startsWith (trim x) (js ''{'') \<Longrightarrow> JSON_parse h (trim x) = None \<Longrightarrow>
     sanitizeString h (JStr x) = trim x"
  using artifact_no_brace by (auto simp: Let_def)

lemma numeric_char_plain: "c \<in> numeric_chars \<Longrightarrow> \<not> is_js_space c \<and> c \<noteq> 0x7B"
  unfolding numeric_chars_def js_def by (simp add: is_js_space_def) (elim disjE; simp)

lemma numToString_plain:
  "numToString n \<noteq> [] \<and> \<not> is_js_space (hd (numToString n)) \<and>
   \<not> is_js_space (last (numToString n)) \<and> hd (numToString n) \<noteq> 0x7B"
proof -
  have A: "numToString n \<noteq> []" and B: "set (numToString n) \<subseteq> numeric_chars"
    using Rep_jsnum [of n] by (simp_all add: numToString_def)
  from A B have "hd (numToString n) \<in> numeric_chars" "last (numToString n) \<in> numeric_chars"
    by auto
  with A show ?thesis using numeric_char_plain by blast
qed

lemma sanitizeString_num_fixed: "sanitizeString h (JStr (numToString n)) = numToString n"
proof -
  have T: "trim (numToString n) = numToString n"
    using numToString_plain [of n] by (intro trim_fixed) simp
  have "\<not> startsWith (trim (numToString n)) (js ''{'')"
    using numToString_plain [of n] by (simp only: T startsWith_brace) simp
  moreover have "trim (numToString n) \<noteq> artifact"
    using numToString_not_artifact [of n] T by metis
  ultimately show ?thesis by (rule sanitizeString_plain)
qed

lemma sanitizeString_true_fixed: "sanitizeString h (JStr (js ''true'')) = js ''true''"
  by code_simp

lemma sanitizeString_false_fixed: "sanitizeString h (JStr (js ''false'')) = js ''false''"
  by code_simp

lemma sanitizeString_empty_fixed: "sanitizeString h (JStr []) = []"
  by code_simp

lemma sanitizeString_fixed:
  "single_piece toNumber x \<Longrightarrow>
     sanitizeString toNumber (JStr (sanitizeString toNumber x)) = sanitizeString toNumber x"
proof (induction toNumber x rule: sanitizeString.induct)
  case (1 toNumber)
  show ?case by (simp add: sanitizeString_empty_fixed del: sanitizeString.simps(3))
next
  case (2 toNumber)
  show ?case by (simp add: sanitizeString_empty_fixed del: sanitizeString.simps(3))
next
  case (3 toNumber val)
  let ?t = "trim val"
  let ?trig = "?t = artifact \<or> startsWith ?t (js [CHR ''{'', CHR 0x22]) \<or> startsWith ?t (js ''{'')"
  show ?case
  proof (cases ?trig)
    case False
    then have R: "sanitizeString toNumber (JStr val) = val"
      using trim_artifact by (auto simp: Let_def)
    then show ?thesis by simp
  next
    case True
    show ?thesis
    proof (cases "JSON_parse toNumber ?t")
      case (Some p)
      have R: "sanitizeString toNumber (JStr val) = sanitizeString toNumber p"
        using True Some by (simp add: Let_def)
      have "single_piece toNumber p" using "3.prems" True Some by (simp add: Let_def)
      from "3.IH" [OF refl True Some this] R show ?thesis by simp
    next
      case None
      show ?thesis
      proof (cases "?t = artifact")
        case A: True
        then have "sanitizeString toNumber (JStr val) = []" using None by (simp add: Let_def)
        then show ?thesis by (simp add: sanitizeString_empty_fixed del: sanitizeString.simps(3))
      next
        case B: False
        then have R: "sanitizeString toNumber (JStr val) = ?t" using True None by (simp add: Let_def)
        have "sanitizeString toNumber (JStr ?t) = ?t"
          using True None B by (simp add: Let_def trim_idem)
        with R show ?thesis by simp
      qed
    qed
  qed
next
  case (4 toNumber n)
  show ?case by (simp add: sanitizeString_num_fixed del: sanitizeString.simps(3))
next
  case (5 toNumber b)
  show ?case
    by (cases b) (simp_all add: sanitizeString_true_fixed sanitizeString_false_fixed
        del: sanitizeString.simps(3))
next
  case (6 toNumber vs)
  let ?keep = "filter (\<lambda>v. sanitizeString toNumber v \<noteq> []) vs"
  have F: "filter (\<lambda>s. s \<noteq> []) (map (sanitizeString toNumber) vs) = map (sanitizeString toNumber) ?keep"
    by (simp add: filter_map comp_def)
  show ?case
  proof (cases ?keep)
    case Nil
    with F have "sanitizeString toNumber (JArr vs) = []" by simp
    then show ?thesis by (simp add: sanitizeString_empty_fixed del: sanitizeString.simps(3))
  next
    case (Cons v rest)
    with "6.prems" have rest: "rest = []" and sp: "single_piece toNumber v" by simp_all
    have "v \<in> set ?keep" using Cons by simp
    then have mem: "v \<in> set vs" by simp
    have R: "sanitizeString toNumber (JArr vs) = sanitizeString toNumber v"
      using F Cons rest by simp
    from "6.IH" [OF mem sp] R show ?thesis by simp
  qed
next
  case (7 toNumber kvs)
  show ?case
  proof (cases "first_priority kvs priorityKeys")
    case (Some v)
    with "7.prems" have "single_piece toNumber v" by simp
    from "7.IH"(2) [OF Some this] Some show ?thesis by simp
  next
    case None
    show ?thesis
    proof (cases "length kvs = 1")
      case True
      with "7.prems" None have "single_piece toNumber (snd (hd kvs))" by simp
      from "7.IH"(1) [OF None True this] None True show ?thesis by simp
    next
      case False
      with None have "sanitizeString toNumber (JObj kvs) = []" by simp
      then show ?thesis by (simp add: sanitizeString_empty_fixed del: sanitizeString.simps(3))
    qed
  qed
qed

subsection \<open>The result is not the artifact, with or without white space around it\<close>

lemma set_dropWhile_keeps: "x \<in> set xs \<Longrightarrow> \<not> P x \<Longrightarrow> x \<in> set (dropWhile P xs)"
  by (induction xs) auto

lemma set_trim_keeps: "c \<in> set s \<Longrightarrow> \<not> is_js_space c \<Longrightarrow> c \<in> set (trim s)"
  unfolding trim_def by (simp add: set_dropWhile_keeps)

lemma comma_not_space: "\<not> is_js_space 0x2C"
  by (simp add: is_js_space_def)

lemma trim_join_not_artifact: "trim (join (js '', '') (x # y # ys)) \<noteq> artifact"
proof
  assume A: "trim (join (js '', '') (x # y # ys)) = artifact"
  have "0x2C \<in> set (trim (join (js '', '') (x # y # ys)))"
    using comma_in_join [of x y ys] comma_not_space by (rule set_trim_keeps)
  with A comma_not_in_artifact show False by simp
qed

lemma trim_true: "trim (js ''true'') = js ''true''"
  by code_simp

lemma trim_false: "trim (js ''false'') = js ''false''"
  by code_simp

lemma true_not_artifact: "js ''true'' \<noteq> artifact"
  by code_simp

lemma false_not_artifact: "js ''false'' \<noteq> artifact"
  by code_simp

lemma trim_empty: "trim [] = []"
  by (simp add: trim_def)

lemma trim_numToString: "trim (numToString n) = numToString n"
  using numToString_plain [of n] by (intro trim_fixed) simp

lemma trim_sanitizeString_not_artifact: "trim (sanitizeString toNumber x) \<noteq> artifact"
proof (induction toNumber x rule: sanitizeString.induct)
  case (1 toNumber)
  show ?case using artifact_nonempty by (simp add: trim_empty)
next
  case (2 toNumber)
  show ?case using artifact_nonempty by (simp add: trim_empty)
next
  case (3 toNumber val)
  let ?t = "trim val"
  let ?trig = "?t = artifact \<or> startsWith ?t (js [CHR ''{'', CHR 0x22]) \<or> startsWith ?t (js ''{'')"
  show ?case
  proof (cases ?trig)
    case False
    then have "sanitizeString toNumber (JStr val) = val"
      using trim_artifact by (auto simp: Let_def)
    with False show ?thesis by simp
  next
    case True
    show ?thesis
    proof (cases "JSON_parse toNumber ?t")
      case (Some p)
      have "sanitizeString toNumber (JStr val) = sanitizeString toNumber p"
        using True Some by (simp add: Let_def)
      with "3.IH" [OF refl True Some] show ?thesis by simp
    next
      case None
      show ?thesis
      proof (cases "?t = artifact")
        case A: True
        then have "sanitizeString toNumber (JStr val) = []" using None by (simp add: Let_def)
        then show ?thesis using artifact_nonempty by (simp add: trim_empty)
      next
        case B: False
        then have "sanitizeString toNumber (JStr val) = ?t" using True None by (simp add: Let_def)
        with B show ?thesis by (simp add: trim_idem)
      qed
    qed
  qed
next
  case (4 toNumber n)
  show ?case by (simp add: trim_numToString numToString_not_artifact)
next
  case (5 toNumber b)
  show ?case
    by (cases b) (simp_all add: trim_true trim_false true_not_artifact false_not_artifact)
next
  case (6 toNumber vs)
  let ?rs = "filter (\<lambda>s. s \<noteq> []) (map (sanitizeString toNumber) vs)"
  show ?case
  proof (cases ?rs)
    case Nil
    then show ?thesis using artifact_nonempty by (simp add: trim_empty)
  next
    case (Cons r rest)
    note rs = Cons
    show ?thesis
    proof (cases rest)
      case Nil
      have "r \<in> set ?rs" using rs by simp
      then obtain v where "v \<in> set vs" and "r = sanitizeString toNumber v" by auto
      with "6.IH" have "trim r \<noteq> artifact" by blast
      with rs Nil show ?thesis by simp
    next
      case (Cons r' rest')
      with rs have "sanitizeString toNumber (JArr vs) = join (js '', '') (r # r' # rest')"
        by (simp del: join.simps)
      then show ?thesis by (simp only: trim_join_not_artifact not_False_eq_True)
    qed
  qed
next
  case (7 toNumber kvs)
  then show ?case
    using artifact_nonempty by (auto simp: trim_empty split: option.splits)
qed

lemma sanitizeString_fixed_plain:
  "\<not> startsWith (trim (sanitizeString toNumber x)) (js ''{'') \<Longrightarrow>
     sanitizeString toNumber (JStr (sanitizeString toNumber x)) = sanitizeString toNumber x"
  using trim_sanitizeString_not_artifact [of toNumber x] by (intro sanitizeString_plain)

subsection \<open>The depth of the call stack\<close>

lemma collect_Inr:
  "(\<And>x. x \<in> set xs \<Longrightarrow> f x = Inr (g x)) \<Longrightarrow> collect (map f xs) = Inr (map g xs)"
  by (induction xs) simp_all

lemma sanitizeString_at_leaf:
  assumes "\<And>d. sanitizeString_at toNumber (Suc d) x = Inr (sanitizeString toNumber x)"
  shows "\<exists>d0. \<forall>d\<ge>d0. sanitizeString_at toNumber d x = Inr (sanitizeString toNumber x)"
proof -
  have "\<forall>d\<ge>1. sanitizeString_at toNumber d x = Inr (sanitizeString toNumber x)"
  proof (intro allI impI)
    fix d :: nat assume "1 \<le> d"
    then obtain d' where "d = Suc d'" by (cases d) auto
    with assms show "sanitizeString_at toNumber d x = Inr (sanitizeString toNumber x)" by simp
  qed
  then show ?thesis by blast
qed

lemma sanitizeString_at_step:
  assumes "\<forall>d\<ge>d0. sanitizeString_at toNumber d y = Inr (sanitizeString toNumber y)"
    and "\<And>d. sanitizeString_at toNumber d y = Inr (sanitizeString toNumber y) \<Longrightarrow>
           sanitizeString_at toNumber (Suc d) x = Inr (sanitizeString toNumber x)"
  shows "\<exists>d1. \<forall>d\<ge>d1. sanitizeString_at toNumber d x = Inr (sanitizeString toNumber x)"
proof -
  have "\<forall>d\<ge>Suc d0. sanitizeString_at toNumber d x = Inr (sanitizeString toNumber x)"
  proof (intro allI impI)
    fix d :: nat assume "Suc d0 \<le> d"
    then obtain d' where d: "d = Suc d'" and "d0 \<le> d'" by (cases d) auto
    with assms(1) have "sanitizeString_at toNumber d' y = Inr (sanitizeString toNumber y)" by blast
    from assms(2) [OF this] d
    show "sanitizeString_at toNumber d x = Inr (sanitizeString toNumber x)" by simp
  qed
  then show ?thesis by blast
qed

text \<open>
  On a call stack that is deep enough for the value, the source returns, and returns what
  \<open>sanitizeString\<close> computes.
\<close>

lemma sanitizeString_at_enough:
  "\<exists>d0. \<forall>d\<ge>d0. sanitizeString_at toNumber d x = Inr (sanitizeString toNumber x)"
proof (induction toNumber x rule: sanitizeString.induct)
  case (1 toNumber)
  show ?case by (rule sanitizeString_at_leaf) simp
next
  case (2 toNumber)
  show ?case by (rule sanitizeString_at_leaf) simp
next
  case (3 toNumber val)
  let ?t = "trim val"
  let ?trig = \<open>?t = artifact \<or> startsWith ?t (js ''{"'') \<or> startsWith ?t (js ''{'')\<close>
  show ?case
  proof (cases "?trig \<and> JSON_parse toNumber ?t \<noteq> None")
    case False
    show ?thesis
    proof (rule sanitizeString_at_leaf)
      fix d
      from False
      show "sanitizeString_at toNumber (Suc d) (JStr val) = Inr (sanitizeString toNumber (JStr val))"
        by (auto simp: Let_def)
    qed
  next
    case True
    then obtain p where T: ?trig and P: "JSON_parse toNumber ?t = Some p" by auto
    from "3.IH" [OF refl T P] obtain d0
      where D: "\<forall>d\<ge>d0. sanitizeString_at toNumber d p = Inr (sanitizeString toNumber p)"
      by blast
    show ?thesis
    proof (rule sanitizeString_at_step [OF D])
      fix d
      assume "sanitizeString_at toNumber d p = Inr (sanitizeString toNumber p)"
      with T P
      show "sanitizeString_at toNumber (Suc d) (JStr val) = Inr (sanitizeString toNumber (JStr val))"
        by (simp add: Let_def)
    qed
  qed
next
  case (4 toNumber n)
  show ?case by (rule sanitizeString_at_leaf) simp
next
  case (5 toNumber b)
  show ?case by (rule sanitizeString_at_leaf) simp
next
  case (6 toNumber vs)
  have "\<forall>x\<in>set vs. \<exists>d0. \<forall>d\<ge>d0.
      sanitizeString_at toNumber d x = Inr (sanitizeString toNumber x)"
    using "6.IH" by blast
  then obtain f where F: "\<forall>x\<in>set vs. \<forall>d\<ge>f x.
      sanitizeString_at toNumber d x = Inr (sanitizeString toNumber x)"
    by (auto dest: bchoice)
  define D where "D = sum_list (map f vs)"
  have le: "f x \<le> D" if "x \<in> set vs" for x
    unfolding D_def using that by (simp add: member_le_sum_list)
  have "\<forall>d\<ge>Suc D. sanitizeString_at toNumber d (JArr vs) = Inr (sanitizeString toNumber (JArr vs))"
  proof (intro allI impI)
    fix d :: nat assume "Suc D \<le> d"
    then obtain d' where d: "d = Suc d'" and dd: "D \<le> d'" by (cases d) auto
    have "collect (map (sanitizeString_at toNumber d') vs) = Inr (map (sanitizeString toNumber) vs)"
    proof (rule collect_Inr)
      fix x assume x: "x \<in> set vs"
      with le dd have "f x \<le> d'" by force
      with F x show "sanitizeString_at toNumber d' x = Inr (sanitizeString toNumber x)" by blast
    qed
    with d show "sanitizeString_at toNumber d (JArr vs) = Inr (sanitizeString toNumber (JArr vs))"
      by simp
  qed
  then show ?case by blast
next
  case (7 toNumber kvs)
  show ?case
  proof (cases "first_priority kvs priorityKeys")
    case (Some v)
    from "7.IH"(2) [OF Some] obtain d0
      where D: "\<forall>d\<ge>d0. sanitizeString_at toNumber d v = Inr (sanitizeString toNumber v)"
      by blast
    show ?thesis
    proof (rule sanitizeString_at_step [OF D])
      fix d
      assume "sanitizeString_at toNumber d v = Inr (sanitizeString toNumber v)"
      with Some
      show "sanitizeString_at toNumber (Suc d) (JObj kvs) = Inr (sanitizeString toNumber (JObj kvs))"
        by simp
    qed
  next
    case None
    show ?thesis
    proof (cases "length kvs = 1")
      case True
      from "7.IH"(1) [OF None True] obtain d0
        where D: "\<forall>d\<ge>d0. sanitizeString_at toNumber d (snd (hd kvs))
            = Inr (sanitizeString toNumber (snd (hd kvs)))"
        by blast
      show ?thesis
      proof (rule sanitizeString_at_step [OF D])
        fix d
        assume "sanitizeString_at toNumber d (snd (hd kvs))
            = Inr (sanitizeString toNumber (snd (hd kvs)))"
        with None True
        show "sanitizeString_at toNumber (Suc d) (JObj kvs) = Inr (sanitizeString toNumber (JObj kvs))"
          by simp
      qed
    next
      case False
      show ?thesis
      proof (rule sanitizeString_at_leaf)
        fix d
        from None False
        show "sanitizeString_at toNumber (Suc d) (JObj kvs) = Inr (sanitizeString toNumber (JObj kvs))"
          by simp
      qed
    qed
  qed
qed

text \<open>
  Inside a string the exception does not leave \<open>sanitizeString\<close>: the \<^verbatim>\<open>catch\<close> of the
  string branch returns the trimmed text. On a stack of three activations the text below
  comes back as it is; on a stack that is deep enough the result is the empty string.
\<close>

lemma sanitizeString_at_caught:
  \<open>sanitizeString_at toNumber 3 (JStr (js ''{"a":[[[[]]]]}'')) = Inr (js ''{"a":[[[[]]]]}'') \<and>
   sanitizeString toNumber (JStr (js ''{"a":[[[[]]]]}'')) = []\<close>
  by code_simp

text \<open>
  C4. The recursive calls of the array branch and of the object branch are made outside
  any \<^verbatim>\<open>try\<close>, one activation of \<^verbatim>\<open>sanitizeString\<close> inside the other for each level
  of nesting, and the source puts no bound on the depth of its argument. Whatever the
  number \<open>d\<close> of nested activations that the call stack admits, \<^verbatim>\<open>sanitizeString\<close>
  raises a \<^verbatim>\<open>RangeError\<close> on the arrays nested \<open>d\<close> deep or deeper. It is not total on
  deeply nested values.
\<close>

theorem sanitizeString_stack_overflow:
  "sanitizeString_at toNumber d (nested_arrays (d + k)) = Inl RangeError"
  by (induction d) simp_all

text \<open>
  C1. For every value \<open>x\<close>, \<open>sanitizeString x\<close> is never the text
  \<^verbatim>\<open>[object Object]\<close>: not when \<open>x\<close> is that string or has it inside white space,
  not for an array of such strings, and not for an object whose selected field holds it.
  The result is not even that text with white space around it.
\<close>

theorem sanitizeString_never_artifact:
  "sanitizeString toNumber x \<noteq> artifact \<and> trim (sanitizeString toNumber x) \<noteq> artifact"
  using sanitizeString_not_artifact trim_sanitizeString_not_artifact by blast

text \<open>
  C5, as stated, fails: for a string whose trimmed form does not start with a brace and is
  not the artifact, the source returns the string as it came, with its white space. The
  string of a space and the letter a is returned unchanged, and is not its trimmed form.
\<close>

theorem sanitizeString_trimmed_counterexample:
  "\<not> startsWith (trim (js '' a'')) (js ''{'') \<and> trim (js '' a'') \<noteq> artifact \<and>
   (\<forall>toNumber. sanitizeString toNumber (JStr (js '' a'')) \<noteq> trim (js '' a''))"
proof -
  have A: "trim (js '' a'') = js ''a''" by code_simp
  have B: "\<not> startsWith (js ''a'') (js ''{'')" by code_simp
  have C: "js ''a'' \<noteq> artifact" by code_simp
  have D: "js '' a'' \<noteq> js ''a''" by code_simp
  have "sanitizeString toNumber (JStr (js '' a'')) = js '' a''" for toNumber
    using A B C by (intro sanitizeString_plain) simp_all
  with A B C D show ?thesis by simp
qed

text \<open>
  C5, amended. For a string whose trimmed form does not start with a brace and is not the
  artifact, \<open>sanitizeString\<close> returns the string itself, unchanged. The trimmed form is
  what it returns for a string whose trimmed form starts with a brace and is not JSON.
\<close>

theorem sanitizeString_string_result:
  "(\<not> startsWith (trim x) (js ''{'') \<and> trim x \<noteq> artifact \<longrightarrow>
      sanitizeString toNumber (JStr x) = x) \<and>
   (startsWith (trim x) (js ''{'') \<and> JSON_parse toNumber (trim x) = None \<longrightarrow>
      sanitizeString toNumber (JStr x) = trim x)"
  using sanitizeString_plain [of x toNumber] sanitizeString_unparsed [of x toNumber] by blast

theorem sanitizeString_string_result_witness:
  "\<forall>toNumber.
     sanitizeString toNumber (JStr (js '' a'')) = js '' a'' \<and>
     sanitizeString toNumber (JStr (js '' {a '')) = js ''{a''"
proof (intro allI)
  fix toNumber
  have A: "trim (js '' a'') = js ''a''" by code_simp
  have B: "\<not> startsWith (js ''a'') (js ''{'')" by code_simp
  have C: "js ''a'' \<noteq> artifact" by code_simp
  have D: "trim (js '' {a '') = js ''{a''" by code_simp
  have E: "startsWith (js ''{a'') (js ''{'')" by code_simp
  have F: "JSON_parse toNumber (js ''{a'') = None" by code_simp
  show "sanitizeString toNumber (JStr (js '' a'')) = js '' a'' \<and>
     sanitizeString toNumber (JStr (js '' {a '')) = js ''{a''"
    using sanitizeString_string_result [of "js '' a''" toNumber]
      sanitizeString_string_result [of "js '' {a ''" toNumber] A B C D E F
    by simp
qed

text \<open>
  C3. \<open>sanitizeString\<close> is not idempotent on strings. The string \<open>nested_pieces\<close> is
  the JSON text of an object whose only member is an array of two strings. The array
  branch joins the two pieces into a text that is itself the JSON of an object; a second
  application parses that text and returns its member, so that the two results differ.
\<close>

theorem sanitizeString_not_idempotent:
  \<open>\<forall>toNumber.
     sanitizeString toNumber (JStr nested_pieces) = js ''{"b":"x, y"}'' \<and>
     sanitizeString toNumber (JStr (sanitizeString toNumber (JStr nested_pieces))) = js ''x, y'' \<and>
     sanitizeString toNumber (JStr (sanitizeString toNumber (JStr nested_pieces)))
       \<noteq> sanitizeString toNumber (JStr nested_pieces)\<close>
proof (intro allI)
  fix toNumber
  have A: \<open>sanitizeString toNumber (JStr nested_pieces) = js ''{"b":"x, y"}''\<close>
    by code_simp
  have B: \<open>sanitizeString toNumber (JStr (js ''{"b":"x, y"}'')) = js ''x, y''\<close>
    by code_simp
  have C: \<open>js ''x, y'' \<noteq> js ''{"b":"x, y"}''\<close>
    by code_simp
  show \<open>sanitizeString toNumber (JStr nested_pieces) = js ''{"b":"x, y"}'' \<and>
     sanitizeString toNumber (JStr (sanitizeString toNumber (JStr nested_pieces))) = js ''x, y'' \<and>
     sanitizeString toNumber (JStr (sanitizeString toNumber (JStr nested_pieces)))
       \<noteq> sanitizeString toNumber (JStr nested_pieces)\<close>
    using A B C by (simp del: sanitizeString.simps)
qed

section \<open>Properties of the extraction\<close>

lemma jsonMatch_span:
  assumes "jsonMatch t = Some m"
  shows "\<exists>lead trail. t = lead @ m @ trail \<and> 0x7B \<notin> set lead \<and> 0x7D \<notin> set trail \<and>
           2 \<le> length m \<and> hd m = 0x7B \<and> last m = 0x7D"
proof -
  define lead where "lead = takeWhile (\<lambda>c. c \<noteq> 0x7B) t"
  define fromBrace where "fromBrace = dropWhile (\<lambda>c. c \<noteq> 0x7B) t"
  define revSpan where "revSpan = dropWhile (\<lambda>c. c \<noteq> 0x7D) (rev fromBrace)"
  define trail where "trail = rev (takeWhile (\<lambda>c. c \<noteq> 0x7D) (rev fromBrace))"
  from assms have m: "m = rev revSpan" and ne: "revSpan \<noteq> []"
    by (auto simp: jsonMatch_def Let_def fromBrace_def revSpan_def split: if_splits)
  have t: "t = lead @ fromBrace" by (simp add: lead_def fromBrace_def)
  have "rev fromBrace = rev trail @ revSpan"
    by (simp add: trail_def revSpan_def)
  then have fb: "fromBrace = m @ trail" using m by (metis rev_append rev_rev_ident)
  have P1: "0x7B \<notin> set lead" unfolding lead_def by (auto dest: set_takeWhileD)
  have P2: "0x7D \<notin> set trail" unfolding trail_def by (auto dest: set_takeWhileD)
  have "\<not> (hd revSpan \<noteq> 0x7D)" using ne unfolding revSpan_def by (rule hd_dropWhile)
  then have L: "last m = 0x7D" using m ne by (simp add: last_rev)
  have mne: "m \<noteq> []" using m ne by simp
  then have "fromBrace \<noteq> []" using fb by simp
  then have "\<not> (hd fromBrace \<noteq> 0x7B)" unfolding fromBrace_def by (rule hd_dropWhile)
  then have H: "hd m = 0x7B" using fb mne by simp
  have "2 \<le> length m"
  proof (cases m)
    case Nil
    with mne show ?thesis by simp
  next
    case (Cons a as)
    with H L show ?thesis by (cases as) auto
  qed
  with t fb P1 P2 H L show ?thesis by auto
qed

lemma jsonMatch_of_span:
  assumes "t = lead @ m @ trail" "0x7B \<notin> set lead" "0x7D \<notin> set trail"
    "m \<noteq> []" "hd m = 0x7B" "last m = 0x7D"
  shows "jsonMatch t = Some m"
proof -
  have A: "dropWhile (\<lambda>c. c \<noteq> 0x7B) t = m @ trail"
  proof -
    have "dropWhile (\<lambda>c. c \<noteq> 0x7B) (lead @ (m @ trail)) = dropWhile (\<lambda>c. c \<noteq> 0x7B) (m @ trail)"
      using assms(2) by (intro dropWhile_append2) auto
    also have "\<dots> = m @ trail" using assms(4,5) by (cases m) auto
    finally show ?thesis using assms(1) by simp
  qed
  have B: "dropWhile (\<lambda>c. c \<noteq> 0x7D) (rev (m @ trail)) = rev m"
  proof -
    have "dropWhile (\<lambda>c. c \<noteq> 0x7D) (rev trail @ rev m) = dropWhile (\<lambda>c. c \<noteq> 0x7D) (rev m)"
      using assms(3) by (intro dropWhile_append2) auto
    also have "\<dots> = rev m" using assms(4,6) by (cases "rev m") (auto simp: hd_rev)
    finally show ?thesis by simp
  qed
  have "rev (dropWhile (\<lambda>c. c \<noteq> 0x7D) (rev (dropWhile (\<lambda>c. c \<noteq> 0x7B) t))) = m"
    by (simp only: A B rev_rev_ident)
  then show ?thesis using assms(4) by (simp only: jsonMatch_def Let_def) simp
qed

lemma extractJson_fails_iff:
  "isl (extractJson h t) \<longleftrightarrow>
     JSON_parse h (cleanedText t) = None \<and>
     (case jsonMatch t of None \<Rightarrow> True | Some m \<Rightarrow> JSON_parse h m = None)"
  by (simp add: extractJson_def split: option.splits)

subsection \<open>Texts between fence markers and between noise\<close>

lemma remove_all_skip:
  "p \<noteq> [] \<Longrightarrow> hd p \<notin> set xs \<Longrightarrow> remove_all p (xs @ ys) = xs @ remove_all p ys"
proof (induction xs)
  case Nil
  then show ?case by simp
next
  case (Cons x xs)
  have "\<not> startsWith (x # xs @ ys) p"
  proof
    assume "startsWith (x # xs @ ys) p"
    then have "take (length p) (x # xs @ ys) = p" by (simp add: startsWith_def)
    with Cons.prems(1) have "hd p = x" by (cases p) auto
    with Cons.prems(2) show False by simp
  qed
  with Cons show ?case by simp
qed

lemma remove_all_none: "p \<noteq> [] \<Longrightarrow> hd p \<notin> set xs \<Longrightarrow> remove_all p xs = xs"
  using remove_all_skip [of p xs "[]"] by simp

lemma remove_all_match: "p \<noteq> [] \<Longrightarrow> remove_all p (p @ ys) = remove_all p ys"
  by (cases p) (simp_all add: startsWith_def)

lemma space_facts: "\<not> is_js_space 0x60" "\<not> is_js_space 0x6A" "\<not> is_js_space 0x7B" "\<not> is_js_space 0x7D"
  by (simp_all add: is_js_space_def)

lemma no_backtick_in_spaces: "list_all is_js_space d \<Longrightarrow> 0x60 \<notin> set d"
  using space_facts(1) by (auto simp: list_all_iff)

lemma fence_json: "js ''```json'' = [0x60, 0x60, 0x60, 0x6A, 0x73, 0x6F, 0x6E]"
  by (simp add: js_def)

lemma fence_plain: "js ''```'' = [0x60, 0x60, 0x60]"
  by (simp add: js_def)

lemma remove_all_closing_fence:
  assumes "list_all is_js_space d"
  shows "remove_all (js ''```json'') (js ''```'' @ d) = js ''```'' @ d"
proof -
  have nb: "0x60 \<notin> set d" using assms by (rule no_backtick_in_spaces)
  have R: "remove_all (js ''```json'') d = d"
    using nb by (intro remove_all_none) (simp_all add: fence_json)
  have "remove_all [0x60, 0x60, 0x60, 0x6A, 0x73, 0x6F, 0x6E] (0x60 # 0x60 # 0x60 # d)
      = 0x60 # 0x60 # 0x60 # remove_all [0x60, 0x60, 0x60, 0x6A, 0x73, 0x6F, 0x6E] d"
  proof (cases d)
    case Nil
    then show ?thesis by (simp add: startsWith_def)
  next
    case (Cons c cs)
    with assms space_facts(1,2) have "c \<noteq> 0x60" "c \<noteq> 0x6A" by auto
    with Cons show ?thesis by (simp add: startsWith_def)
  qed
  then have "remove_all (js ''```json'') (js ''```'' @ d) = js ''```'' @ remove_all (js ''```json'') d"
    by (simp only: fence_json fence_plain append_Cons append_Nil)
  then show ?thesis by (simp only: R)
qed

lemma trim_surround:
  assumes "list_all is_js_space a" "list_all is_js_space b"
    and "j \<noteq> []" "\<not> is_js_space (hd j)" "\<not> is_js_space (last j)"
  shows "trim (a @ j @ b) = j"
proof -
  have A: "dropWhile is_js_space (a @ j @ b) = j @ b"
  proof -
    have "dropWhile is_js_space (a @ (j @ b)) = dropWhile is_js_space (j @ b)"
      using assms(1) by (intro dropWhile_append2) (simp add: list_all_iff)
    also have "\<dots> = j @ b" using assms(3,4) by (cases j) auto
    finally show ?thesis by simp
  qed
  have B: "dropWhile is_js_space (rev (j @ b)) = rev j"
  proof -
    have "dropWhile is_js_space (rev b @ rev j) = dropWhile is_js_space (rev j)"
      using assms(2) by (intro dropWhile_append2) (simp add: list_all_iff)
    also have "\<dots> = rev j" using assms(3,5) by (cases "rev j") (auto simp: hd_rev)
    finally show ?thesis by simp
  qed
  show ?thesis unfolding trim_def by (simp only: A B rev_rev_ident)
qed

lemma remove_all_pass:
  assumes "p \<noteq> []" and "\<And>i. i < length xs \<Longrightarrow> \<not> startsWith (drop i xs @ ys) p"
  shows "remove_all p (xs @ ys) = xs @ remove_all p ys"
  using assms(2)
proof (induction xs)
  case Nil
  show ?case by simp
next
  case (Cons x xs)
  from Cons.prems [of 0] have "\<not> startsWith (x # xs @ ys) p" by simp
  moreover have "remove_all p (xs @ ys) = xs @ remove_all p ys"
  proof (rule Cons.IH)
    fix i assume "i < length xs"
    with Cons.prems [of "Suc i"] show "\<not> startsWith (drop i xs @ ys) p" by simp
  qed
  ultimately show ?case by simp
qed

lemma includes_str_drop:
  "i \<le> length xs \<Longrightarrow> startsWith (drop i xs) p \<Longrightarrow> includes_str xs p"
proof (induction xs arbitrary: i)
  case Nil
  then show ?case by (simp add: startsWith_def)
next
  case (Cons x xs)
  then show ?case by (cases i) simp_all
qed

lemma no_fence_inside:
  assumes "\<not> includes_str j (js ''```'')" and "last j \<noteq> 0x60" and "i < length j"
  shows "\<not> startsWith (drop i j @ ys) (js ''```'' @ q)"
proof
  assume S: "startsWith (drop i j @ ys) (js ''```'' @ q)"
  define s where "s = drop i j"
  have ne: "s \<noteq> []" and l: "last s = last j" using assms(3) by (simp_all add: s_def)
  from S have T: "take 3 (s @ ys) = [0x60, 0x60, 0x60]"
    unfolding startsWith_def s_def fence_plain
    by (metis append_eq_conv_conj length_Cons list.size(3) numeral_3_eq_3 take_take min.idem
        append_take_drop_id take_append)
  show False
  proof (cases s)
    case Nil
    with ne show ?thesis by simp
  next
    case A: (Cons x1 s1)
    show ?thesis
    proof (cases s1)
      case Nil
      with A T l assms(2) show ?thesis by (simp add: numeral_3_eq_3)
    next
      case B: (Cons x2 s2)
      show ?thesis
      proof (cases s2)
        case Nil
        with A B T l assms(2) show ?thesis by (simp add: numeral_3_eq_3)
      next
        case C: (Cons x3 s3)
        with A B T have "startsWith s (js ''```'')"
          by (simp add: startsWith_def fence_plain numeral_3_eq_3)
        then have "includes_str j (js ''```'')"
          using assms(3) unfolding s_def by (intro includes_str_drop [of i]) simp_all
        with assms(1) show ?thesis by simp
      qed
    qed
  qed
qed

lemma remove_all_keeps:
  assumes "\<not> includes_str j (js ''```'')" and "last j \<noteq> 0x60"
  shows "remove_all (js ''```'' @ q) (j @ ys) = j @ remove_all (js ''```'' @ q) ys"
proof (rule remove_all_pass)
  show "js ''```'' @ q \<noteq> []" by (simp add: fence_plain)
next
  fix i assume "i < length j"
  with assms show "\<not> startsWith (drop i j @ ys) (js ''```'' @ q)" by (rule no_fence_inside)
qed

lemma fence_json_split: "js ''```json'' = js ''```'' @ js ''json''"
  by (simp add: js_def)

lemma cleanedText_fenced:
  assumes "list_all is_js_space a" "list_all is_js_space b"
    "list_all is_js_space c" "list_all is_js_space d"
    and "\<not> includes_str j (js ''```'')" "j \<noteq> []" "\<not> is_js_space (hd j)" "\<not> is_js_space (last j)"
    "last j \<noteq> 0x60"
  shows "cleanedText (a @ js ''```json'' @ b @ j @ c @ js ''```'' @ d) = j"
proof -
  let ?fj = "js ''```json''" and ?f = "js ''```''"
  define closing where "closing = ?f @ d"
  have fj: "?fj \<noteq> []" "hd ?fj = 0x60" by (simp_all add: fence_json)
  have f: "?f \<noteq> []" "hd ?f = 0x60" by (simp_all add: fence_plain)
  have na: "0x60 \<notin> set a" and nb: "0x60 \<notin> set b" and nc: "0x60 \<notin> set c"
    and nd: "0x60 \<notin> set d"
    using assms(1-4) by (simp_all add: no_backtick_in_spaces)
  have kj: "remove_all ?fj (j @ ys) = j @ remove_all ?fj ys" for ys
    using remove_all_keeps [OF assms(5,9), of "js ''json''" ys] by (simp only: fence_json_split)
  have kf: "remove_all ?f (j @ ys) = j @ remove_all ?f ys" for ys
    using remove_all_keeps [OF assms(5,9), of "[]" ys] by simp
  have s1: "remove_all ?fj (a @ (?fj @ (b @ (j @ (c @ closing)))))
      = a @ remove_all ?fj (?fj @ (b @ (j @ (c @ closing))))"
    using fj na by (intro remove_all_skip) simp_all
  have s2: "remove_all ?fj (?fj @ (b @ (j @ (c @ closing)))) = remove_all ?fj (b @ (j @ (c @ closing)))"
    using fj(1) by (rule remove_all_match)
  have s3: "remove_all ?fj (b @ (j @ (c @ closing))) = b @ remove_all ?fj (j @ (c @ closing))"
    using fj nb by (intro remove_all_skip) simp_all
  have s4: "remove_all ?fj (c @ closing) = c @ remove_all ?fj closing"
    using fj nc by (intro remove_all_skip) simp_all
  have s5: "remove_all ?fj closing = closing"
    unfolding closing_def using assms(4) by (rule remove_all_closing_fence)
  have one: "remove_all ?fj (a @ ?fj @ b @ j @ c @ ?f @ d) = a @ (b @ (j @ (c @ (?f @ d))))"
    unfolding closing_def [symmetric] by (simp only: s1 s2 s3 kj s4 s5)
  have t1: "remove_all ?f (a @ (b @ (j @ (c @ (?f @ d))))) = a @ remove_all ?f (b @ (j @ (c @ (?f @ d))))"
    using f na by (intro remove_all_skip) simp_all
  have t2: "remove_all ?f (b @ (j @ (c @ (?f @ d)))) = b @ remove_all ?f (j @ (c @ (?f @ d)))"
    using f nb by (intro remove_all_skip) simp_all
  have t3: "remove_all ?f (c @ (?f @ d)) = c @ remove_all ?f (?f @ d)"
    using f nc by (intro remove_all_skip) simp_all
  have t4: "remove_all ?f (?f @ d) = remove_all ?f d"
    using f(1) by (rule remove_all_match)
  have t5: "remove_all ?f d = d"
    using f nd by (intro remove_all_none) simp_all
  have two: "remove_all ?f (a @ (b @ (j @ (c @ (?f @ d))))) = (a @ b) @ j @ (c @ d)"
    by (simp only: t1 t2 kf t3 t4 t5) simp
  have "trim ((a @ b) @ j @ (c @ d)) = j"
    using assms by (intro trim_surround) simp_all
  then show ?thesis unfolding cleanedText_def by (simp only: one two)
qed

lemma extractJson_value:
  "extractJson h t = Inr v \<longleftrightarrow>
     JSON_parse h (cleanedText t) = Some v \<or>
     (JSON_parse h (cleanedText t) = None \<and> (\<exists>m. jsonMatch t = Some m \<and> JSON_parse h m = Some v))"
  by (auto simp: extractJson_def split: option.splits)

lemma extractJson_fenced:
  assumes "JSON_parse h j = Some v" "\<not> includes_str j (js ''```'')" "j \<noteq> []"
    "hd j = 0x7B" "last j = 0x7D"
    and "list_all is_js_space a" "list_all is_js_space b"
    "list_all is_js_space c" "list_all is_js_space d"
  shows "extractJson h (a @ js ''```json'' @ b @ j @ c @ js ''```'' @ d) = Inr v"
proof -
  have "cleanedText (a @ js ''```json'' @ b @ j @ c @ js ''```'' @ d) = j"
    using assms space_facts(3,4) by (intro cleanedText_fenced) simp_all
  with assms(1) show ?thesis by (simp add: extractJson_def)
qed

lemma extractJson_embedded:
  assumes "JSON_parse h j = Some v" "j \<noteq> []" "hd j = 0x7B" "last j = 0x7D"
    and "0x7B \<notin> set lead" "0x7D \<notin> set trail"
  shows "extractJson h (lead @ j @ trail) =
     Inr (case JSON_parse h (cleanedText (lead @ j @ trail)) of Some w \<Rightarrow> w | None \<Rightarrow> v)"
proof -
  have "jsonMatch (lead @ j @ trail) = Some j"
    using assms(2-6) by (intro jsonMatch_of_span [of _ lead j trail]) simp_all
  with assms(1) show ?thesis by (simp add: extractJson_def split: option.splits)
qed


text \<open>
  C7, as stated, fails. The source tries one span only, from the first opening brace of
  the text to its last closing brace. In the first text below a shorter span between
  braces is the JSON of an object, and the extraction fails all the same; it fails too on
  the second text, where the noise before the object has braces of its own. And the fence
  markers are removed wherever they stand, also inside the object: from the fenced text
  of an object whose member is \<^verbatim>\<open>p```q\<close> the extraction returns an object whose
  member is \<^verbatim>\<open>pq\<close>.
\<close>

theorem extractJson_recovery_counterexample:
  \<open>\<forall>toNumber.
     JSON_parse toNumber (js ''{"a":1}'') = Some (JObj [(js ''a'', JNum (toNumber (js ''1'')))]) \<and>
     js ''{"a":1} }'' = js ''{"a":1}'' @ js '' }'' \<and>
     extractJson toNumber (js ''{"a":1} }'') = Inl JsonParseFailed \<and>
     js ''see {x}: {"a":1}'' = js ''see {x}: '' @ js ''{"a":1}'' \<and>
     extractJson toNumber (js ''see {x}: {"a":1}'') = Inl JsonParseFailed \<and>
     JSON_parse toNumber (js ''{"a":"p```q"}'') = Some (JObj [(js ''a'', JStr (js ''p```q''))]) \<and>
     extractJson toNumber (js ''```json'' @ [0x0A] @ js ''{"a":"p```q"}'' @ [0x0A] @ js ''```'')
       = Inr (JObj [(js ''a'', JStr (js ''pq''))]) \<and>
     js ''pq'' \<noteq> js ''p```q''\<close>
proof (intro allI conjI)
  fix toNumber
  show \<open>JSON_parse toNumber (js ''{"a":1}'') = Some (JObj [(js ''a'', JNum (toNumber (js ''1'')))])\<close>
    by code_simp
  show \<open>js ''{"a":1} }'' = js ''{"a":1}'' @ js '' }''\<close>
    by code_simp
  show \<open>extractJson toNumber (js ''{"a":1} }'') = Inl JsonParseFailed\<close>
    by code_simp
  show \<open>js ''see {x}: {"a":1}'' = js ''see {x}: '' @ js ''{"a":1}''\<close>
    by code_simp
  show \<open>extractJson toNumber (js ''see {x}: {"a":1}'') = Inl JsonParseFailed\<close>
    by code_simp
  show \<open>JSON_parse toNumber (js ''{"a":"p```q"}'') = Some (JObj [(js ''a'', JStr (js ''p```q''))])\<close>
    by code_simp
  show \<open>extractJson toNumber (js ''```json'' @ [0x0A] @ js ''{"a":"p```q"}'' @ [0x0A] @ js ''```'')
       = Inr (JObj [(js ''a'', JStr (js ''pq''))])\<close>
    by code_simp
  show \<open>js ''pq'' \<noteq> js ''p```q''\<close>
    by code_simp
qed

text \<open>
  C7, amended. The extraction returns the value of the fence-stripped and trimmed text
  when that text is JSON, and otherwise the value of the span from the first opening brace
  of the text to its last closing brace, which is what \<open>jsonMatch\<close> returns; it fails
  exactly when neither is JSON, as on a text without braces. Hence it recovers an object,
  given by a text \<open>j\<close> that starts with its opening brace, ends with its closing brace
  and is JSON,
  \<^item> from a text where \<open>j\<close> stands between the fence markers, with nothing but white
    space around the markers and around \<open>j\<close>, when there are no three backticks in a
    row inside \<open>j\<close>;
  \<^item> from a text where \<open>j\<close> stands between noise, when the noise before \<open>j\<close> has no
    opening brace and the noise after \<open>j\<close> has no closing brace: the result is the
    value of \<open>j\<close>, unless the fence-stripped text as a whole is JSON, whose value is
    then the result.

  In particular it recovers the object from the two texts of the specification.
\<close>

theorem extractJson_recovers:
  \<open>(extractJson toNumber t = Inr v \<longleftrightarrow>
      JSON_parse toNumber (cleanedText t) = Some v \<or>
      (JSON_parse toNumber (cleanedText t) = None \<and>
       (\<exists>m. jsonMatch t = Some m \<and> JSON_parse toNumber m = Some v))) \<and>
   (isl (extractJson toNumber t) \<longleftrightarrow>
      JSON_parse toNumber (cleanedText t) = None \<and>
      (\<forall>m. jsonMatch t = Some m \<longrightarrow> JSON_parse toNumber m = None)) \<and>
   (jsonMatch t = Some m \<longleftrightarrow>
      m \<noteq> [] \<and> hd m = 0x7B \<and> last m = 0x7D \<and>
      (\<exists>lead trail. t = lead @ m @ trail \<and> 0x7B \<notin> set lead \<and> 0x7D \<notin> set trail)) \<and>
   (JSON_parse toNumber j = Some w \<and> j \<noteq> [] \<and> hd j = 0x7B \<and> last j = 0x7D \<and>
    \<not> includes_str j (js ''```'') \<and>
    list_all is_js_space a \<and> list_all is_js_space b \<and>
    list_all is_js_space c \<and> list_all is_js_space d \<longrightarrow>
      extractJson toNumber (a @ js ''```json'' @ b @ j @ c @ js ''```'' @ d) = Inr w) \<and>
   (JSON_parse toNumber j = Some w \<and> j \<noteq> [] \<and> hd j = 0x7B \<and> last j = 0x7D \<and>
    0x7B \<notin> set lead \<and> 0x7D \<notin> set trail \<longrightarrow>
      extractJson toNumber (lead @ j @ trail) =
        Inr (case JSON_parse toNumber (cleanedText (lead @ j @ trail)) of
               Some u \<Rightarrow> u | None \<Rightarrow> w)) \<and>
   extractJson toNumber (js ''```json'' @ [0x0A] @ js ''{"a":1}'' @ [0x0A] @ js ''```'')
       = Inr (JObj [(js ''a'', JNum (toNumber (js ''1'')))]) \<and>
   extractJson toNumber (js ''noise {"a":1} noise'')
       = Inr (JObj [(js ''a'', JNum (toNumber (js ''1'')))]) \<and>
   extractJson toNumber (js ''no braces here'') = Inl NoJsonStructure\<close>
proof (intro conjI)
  show "extractJson toNumber t = Inr v \<longleftrightarrow>
      JSON_parse toNumber (cleanedText t) = Some v \<or>
      (JSON_parse toNumber (cleanedText t) = None \<and>
       (\<exists>m. jsonMatch t = Some m \<and> JSON_parse toNumber m = Some v))"
    by (rule extractJson_value)
  show "isl (extractJson toNumber t) \<longleftrightarrow>
      JSON_parse toNumber (cleanedText t) = None \<and>
      (\<forall>m. jsonMatch t = Some m \<longrightarrow> JSON_parse toNumber m = None)"
    by (cases "jsonMatch t") (simp_all add: extractJson_fails_iff)
  show "jsonMatch t = Some m \<longleftrightarrow>
      m \<noteq> [] \<and> hd m = 0x7B \<and> last m = 0x7D \<and>
      (\<exists>lead trail. t = lead @ m @ trail \<and> 0x7B \<notin> set lead \<and> 0x7D \<notin> set trail)"
  proof
    assume "jsonMatch t = Some m"
    from jsonMatch_span [OF this] show "m \<noteq> [] \<and> hd m = 0x7B \<and> last m = 0x7D \<and>
      (\<exists>lead trail. t = lead @ m @ trail \<and> 0x7B \<notin> set lead \<and> 0x7D \<notin> set trail)"
      by auto
  next
    assume "m \<noteq> [] \<and> hd m = 0x7B \<and> last m = 0x7D \<and>
      (\<exists>lead trail. t = lead @ m @ trail \<and> 0x7B \<notin> set lead \<and> 0x7D \<notin> set trail)"
    then show "jsonMatch t = Some m" using jsonMatch_of_span by blast
  qed
  show "JSON_parse toNumber j = Some w \<and> j \<noteq> [] \<and> hd j = 0x7B \<and> last j = 0x7D \<and>
    \<not> includes_str j (js ''```'') \<and>
    list_all is_js_space a \<and> list_all is_js_space b \<and>
    list_all is_js_space c \<and> list_all is_js_space d \<longrightarrow>
      extractJson toNumber (a @ js ''```json'' @ b @ j @ c @ js ''```'' @ d) = Inr w"
    using extractJson_fenced [of toNumber j w a b c d] by blast
  show "JSON_parse toNumber j = Some w \<and> j \<noteq> [] \<and> hd j = 0x7B \<and> last j = 0x7D \<and>
    0x7B \<notin> set lead \<and> 0x7D \<notin> set trail \<longrightarrow>
      extractJson toNumber (lead @ j @ trail) =
        Inr (case JSON_parse toNumber (cleanedText (lead @ j @ trail)) of
               Some u \<Rightarrow> u | None \<Rightarrow> w)"
    using extractJson_embedded [of toNumber j w lead trail] by blast
  show \<open>extractJson toNumber (js ''```json'' @ [0x0A] @ js ''{"a":1}'' @ [0x0A] @ js ''```'')
       = Inr (JObj [(js ''a'', JNum (toNumber (js ''1'')))])\<close>
    by code_simp
  show \<open>extractJson toNumber (js ''noise {"a":1} noise'')
       = Inr (JObj [(js ''a'', JNum (toNumber (js ''1'')))])\<close>
    by code_simp
  show \<open>extractJson toNumber (js ''no braces here'') = Inl NoJsonStructure\<close>
    by code_simp
qed

theorem extractJson_recovers_witness:
  \<open>\<forall>toNumber.
     JSON_parse toNumber (js ''{"a":"`"}'') = Some (JObj [(js ''a'', JStr (js ''`''))]) \<and>
     \<not> includes_str (js ''{"a":"`"}'') (js ''```'') \<and>
     list_all is_js_space [0x20, 0x0A] \<and>
     extractJson toNumber
       ([0x20, 0x0A] @ js ''```json'' @ [0x0A] @ js ''{"a":"`"}'' @ [0x0A] @ js ''```'' @ [0x0A])
       = Inr (JObj [(js ''a'', JStr (js ''`''))]) \<and>
     JSON_parse toNumber (js ''{"b":[true,null]}'')
       = Some (JObj [(js ''b'', JArr [JBool True, JNull])]) \<and>
     0x7B \<notin> set (js ''Result: } '') \<and> 0x7D \<notin> set (js '' { done.'') \<and>
     JSON_parse toNumber (cleanedText (js ''Result: } '' @ js ''{"b":[true,null]}'' @ js '' { done.''))
       = None \<and>
     extractJson toNumber (js ''Result: } '' @ js ''{"b":[true,null]}'' @ js '' { done.'')
       = Inr (JObj [(js ''b'', JArr [JBool True, JNull])]) \<and>
     jsonMatch (js ''x {"a":1} } y'') = Some (js ''{"a":1} }'') \<and>
     JSON_parse toNumber (js ''{"a":1} }'') = None \<and>
     JSON_parse toNumber (cleanedText (js ''x {"a":1} } y'')) = None \<and>
     isl (extractJson toNumber (js ''x {"a":1} } y''))\<close>
proof (intro allI)
  fix toNumber
  let ?j = \<open>js ''{"a":"`"}''\<close> and ?k = \<open>js ''{"b":[true,null]}''\<close>
  have J1: \<open>JSON_parse toNumber ?j = Some (JObj [(js ''a'', JStr (js ''`''))])\<close>
    by code_simp
  have J2: \<open>?j \<noteq> []\<close> \<open>hd ?j = 0x7B\<close> \<open>last ?j = 0x7D\<close> \<open>\<not> includes_str ?j (js ''```'')\<close>
    by code_simp+
  have S: "list_all is_js_space []" "list_all is_js_space [0x0A]" "list_all is_js_space [0x20, 0x0A]"
    by code_simp+
  have F: \<open>extractJson toNumber ([0x20, 0x0A] @ js ''```json'' @ [0x0A] @ ?j @ [0x0A] @ js ''```'' @ [0x0A])
       = Inr (JObj [(js ''a'', JStr (js ''`''))])\<close>
    using extractJson_recovers [where toNumber = toNumber and j = ?j
        and w = \<open>JObj [(js ''a'', JStr (js ''`''))]\<close>
        and a = "[0x20, 0x0A]" and b = "[0x0A]" and c = "[0x0A]" and d = "[0x0A]"] J1 J2 S
    by blast
  have K1: \<open>JSON_parse toNumber ?k = Some (JObj [(js ''b'', JArr [JBool True, JNull])])\<close>
    by code_simp
  have K2: \<open>?k \<noteq> []\<close> \<open>hd ?k = 0x7B\<close> \<open>last ?k = 0x7D\<close>
    by code_simp+
  have N: \<open>0x7B \<notin> set (js ''Result: } '')\<close> \<open>0x7D \<notin> set (js '' { done.'')\<close>
    by code_simp+
  have W: \<open>JSON_parse toNumber (cleanedText (js ''Result: } '' @ ?k @ js '' { done.'')) = None\<close>
    by code_simp
  have \<open>extractJson toNumber (js ''Result: } '' @ ?k @ js '' { done.'') =
      Inr (case JSON_parse toNumber (cleanedText (js ''Result: } '' @ ?k @ js '' { done.'')) of
             Some u \<Rightarrow> u | None \<Rightarrow> JObj [(js ''b'', JArr [JBool True, JNull])])\<close>
    using extractJson_recovers [where toNumber = toNumber and j = ?k
        and w = \<open>JObj [(js ''b'', JArr [JBool True, JNull])]\<close>
        and lead = \<open>js ''Result: } ''\<close> and trail = \<open>js '' { done.''\<close>] K1 K2 N
    by blast
  then have E: \<open>extractJson toNumber (js ''Result: } '' @ ?k @ js '' { done.'')
      = Inr (JObj [(js ''b'', JArr [JBool True, JNull])])\<close>
    by (simp only: W option.case)
  have A: \<open>jsonMatch (js ''x {"a":1} } y'') = Some (js ''{"a":1} }'')\<close>
    by code_simp
  have B: \<open>JSON_parse toNumber (js ''{"a":1} }'') = None\<close>
    by code_simp
  have C: \<open>JSON_parse toNumber (cleanedText (js ''x {"a":1} } y'')) = None\<close>
    by code_simp
  have D: \<open>isl (extractJson toNumber (js ''x {"a":1} } y''))\<close>
    using extractJson_recovers [where toNumber = toNumber and t = \<open>js ''x {"a":1} } y''\<close>] A B C
    by simp
  from J1 J2 S F K1 N W E A B C D
  show \<open>JSON_parse toNumber (js ''{"a":"`"}'') = Some (JObj [(js ''a'', JStr (js ''`''))]) \<and>
     \<not> includes_str (js ''{"a":"`"}'') (js ''```'') \<and>
     list_all is_js_space [0x20, 0x0A] \<and>
     extractJson toNumber
       ([0x20, 0x0A] @ js ''```json'' @ [0x0A] @ js ''{"a":"`"}'' @ [0x0A] @ js ''```'' @ [0x0A])
       = Inr (JObj [(js ''a'', JStr (js ''`''))]) \<and>
     JSON_parse toNumber (js ''{"b":[true,null]}'')
       = Some (JObj [(js ''b'', JArr [JBool True, JNull])]) \<and>
     0x7B \<notin> set (js ''Result: } '') \<and> 0x7D \<notin> set (js '' { done.'') \<and>
     JSON_parse toNumber (cleanedText (js ''Result: } '' @ js ''{"b":[true,null]}'' @ js '' { done.''))
       = None \<and>
     extractJson toNumber (js ''Result: } '' @ js ''{"b":[true,null]}'' @ js '' { done.'')
       = Inr (JObj [(js ''b'', JArr [JBool True, JNull])]) \<and>
     jsonMatch (js ''x {"a":1} } y'') = Some (js ''{"a":1} }'') \<and>
     JSON_parse toNumber (js ''{"a":1} }'') = None \<and>
     JSON_parse toNumber (cleanedText (js ''x {"a":1} } y'')) = None \<and>
     isl (extractJson toNumber (js ''x {"a":1} } y''))\<close>
    by (intro conjI)
qed

section \<open>Properties of the normalization\<close>

lemma length_lower_unit: "c \<noteq> 0x130 \<Longrightarrow> length (lower_unit c) = 1"
  by (simp add: lower_unit_def)

lemma length_toLowerCase: "0x130 \<notin> set b \<Longrightarrow> length (toLowerCase b) = length b"
  by (induction b) (simp_all add: toLowerCase_def length_lower_unit)

lemma keepMedication_iff: "keepMedication m \<longleftrightarrow> brand_accepted (prescribed_brand m)"
  by (auto simp: keepMedication_def brand_accepted_def Let_def)

lemma medicationEntries_default:
  "medicationEntries (if truthy parsed then parsed else JObj []) = medicationEntries parsed"
  by (cases parsed) (simp_all add: medicationEntries_def)

lemma normalize_medications_aux:
  assumes "normalize toNumber parsed = Inr r"
  shows "medications r =
     filter (\<lambda>m. brand_accepted (prescribed_brand m))
       (map (sanitizeMedication toNumber) (medicationEntries parsed))"
proof -
  have "medications r =
     filter keepMedication (map (sanitizeMedication toNumber)
       (medicationEntries (if truthy parsed then parsed else JObj [])))"
    using assms by (auto simp: normalize_def Let_def split: if_splits)
  moreover have "keepMedication = (\<lambda>m. brand_accepted (prescribed_brand m))"
    by (rule ext) (rule keepMedication_iff)
  ultimately show ?thesis by (simp only: medicationEntries_default)
qed

lemma brand_accepted_plain:
  "0x130 \<notin> set b \<Longrightarrow>
     brand_accepted b \<longleftrightarrow>
       b \<noteq> [] \<and> 1 < length b \<and>
       \<not> includes_str (toLowerCase b) (js ''not provided'') \<and>
       \<not> includes_str (toLowerCase b) (js ''illegible'')"
  by (auto simp: brand_accepted_def length_toLowerCase)

lemma sanitizeString_fallback_en:
  "sanitizeString toNumber (JStr (js ''Analysis complete.'')) = js ''Analysis complete.''"
  by code_simp

text \<open>When the source field is absent, or is any other falsy value, the fallback is the result.\<close>

lemma normalize_en_absent:
  assumes "normalize toNumber parsed = Inr r"
    and "\<not> truthy (readProp (orElse (readProp (if truthy parsed then parsed else JObj [])
            (js ''bhashini_summary'')) (JObj [])) (js ''en''))"
  shows "en (bhashini_summary r) = js ''Analysis complete.''"
proof -
  define s where
    "s = orElse (readProp (if truthy parsed then parsed else JObj []) (js ''bhashini_summary''))
           (JObj [])"
  have "en (bhashini_summary r) =
      sanitizeString toNumber (orElse (readProp s (js ''en'')) (JStr (js ''Analysis complete.'')))"
    using assms(1) unfolding normalize_def Let_def s_def
    by (simp split: if_splits del: sanitizeString.simps) auto
  moreover have "orElse (readProp s (js ''en'')) (JStr (js ''Analysis complete.''))
      = JStr (js ''Analysis complete.'')"
    using assms(2) unfolding s_def by (simp only: orElse_def if_False)
  ultimately show ?thesis by (simp only: sanitizeString_fallback_en)
qed

text \<open>
  C2. The fallback of the source is applied before the sanitization, not after it: a
  field \<^verbatim>\<open>en\<close> that is present and truthy, and that \<open>sanitizeString\<close> turns into the
  empty string, gives an empty \<^verbatim>\<open>bhashini_summary.en\<close>. Here the field holds the artifact
  text itself.
\<close>

theorem analyzePrescription_empty_en:
  \<open>\<forall>toNumber.
     analyzePrescription toNumber
       (Inr (Some (js ''{"bhashini_summary":{"en":"[object Object]"}}''))) =
     Inr \<lparr> metadata = \<lparr> doctor = js ''Not provided in image'',
                         date = js ''Not provided in image'', currency = js ''INR'' \<rparr>,
           medications = [],
           bhashini_summary =
             \<lparr> en = [], hi = [], te = [], ta = [], kn = [], bn = [], mr = [] \<rparr>,
           disclaimer = [] \<rparr>\<close>
  by (intro allI) code_simp

text \<open>
  C6. The normalized list is not always the list of the entries whose sanitized brand is
  longer than one code unit and has no marker. The filter of the source takes the length
  of the lower-cased brand, and the lower-case form of the letter U+0130 is two code units
  long: an entry whose brand is that one letter is kept, although the brand has length 1.
  And an entry that is \<^verbatim>\<open>null\<close> makes the mapping over the
  entries throw a \<^verbatim>\<open>TypeError\<close>, so that the valid entry beside it is not kept: there
  is no list at all.
\<close>

theorem analyzePrescription_medications_failures:
  \<open>\<forall>toNumber.
     length [0x130 :: jschar] = 1 \<and>
     analyzePrescription toNumber
       (Inr (Some (js ''{"medications":[{"prescribed_brand":"'' @ [0x130] @ js ''"}]}''))) =
     Inr \<lparr> metadata = \<lparr> doctor = js ''Not provided in image'',
                         date = js ''Not provided in image'', currency = js ''INR'' \<rparr>,
           medications = [\<lparr> prescribed_brand = [0x130], active_salt = [],
                            jan_aushadhi_generic = [], brand_price_est = [],
                            jan_aushadhi_price_est = [], savings_est = [] \<rparr>],
           bhashini_summary =
             \<lparr> en = js ''Analysis complete.'', hi = [], te = [], ta = [], kn = [], bn = [],
               mr = [] \<rparr>,
           disclaimer = [] \<rparr> \<and>
     analyzePrescription toNumber
       (Inr (Some (js ''{"medications":[{"prescribed_brand":"Crocin"},null]}''))) =
     Inl TypeError\<close>
  by (intro allI) code_simp

text \<open>
  On the entries of the specification the filter does what is asked: of the four entries
  below, the one whose brand is \<^verbatim>\<open>Crocin\<close> is kept, and the ones whose brand has a
  marker, in whatever case, or is one letter long are removed, with nothing in their
  place.
\<close>

lemma analyzePrescription_medications_examples:
  \<open>analyzePrescription toNumber
     (Inr (Some (js ''{"medications":[{"prescribed_brand":"Not provided in image"},''
        @ js ''{"prescribed_brand":"Crocin"},{"prescribed_brand":"X"},''
        @ js ''{"prescribed_brand":"ILLEGIBLE scrawl"}]}''))) =
   Inr \<lparr> metadata = \<lparr> doctor = js ''Not provided in image'',
                       date = js ''Not provided in image'', currency = js ''INR'' \<rparr>,
         medications = [\<lparr> prescribed_brand = js ''Crocin'', active_salt = [],
                          jan_aushadhi_generic = [], brand_price_est = [],
                          jan_aushadhi_price_est = [], savings_est = [] \<rparr>],
         bhashini_summary =
           \<lparr> en = js ''Analysis complete.'', hi = [], te = [], ta = [], kn = [], bn = [],
             mr = [] \<rparr>,
         disclaimer = [] \<rparr>\<close>
  by code_simp

section \<open>Properties of findNearestStore\<close>

lemma findNearestStore_try_empty:
  "candidates response = None \<or> candidates response = Some [] \<Longrightarrow>
     findNearestStore_try toNumber lat lng (Inr response) = Inr None"
  by (auto simp: findNearestStore_try_def)

lemma findNearestStore_Some:
  assumes "findNearestStore toNumber lat lng outcome = Some store"
  shows "\<exists>response st. outcome = Inr response \<and> store = storeFromScan toNumber lat lng response st"
proof (cases outcome)
  case (Inl e)
  with assms show ?thesis by (simp add: findNearestStore_def findNearestStore_try_def)
next
  case (Inr response)
  from assms have T: "findNearestStore_try toNumber lat lng outcome = Inr (Some store)"
    by (simp add: findNearestStore_def split: sum.splits)
  have "\<exists>st. store = storeFromScan toNumber lat lng response st"
  proof (cases "candidates response")
    case None
    with T Inr show ?thesis by (simp add: findNearestStore_try_def)
  next
    case (Some cands)
    show ?thesis
    proof (cases cands)
      case Nil
      with T Inr Some show ?thesis by (simp add: findNearestStore_try_def)
    next
      case (Cons candidate others)
      with T Inr Some show ?thesis
        unfolding findNearestStore_try_def Let_def
        by (auto split: if_splits jsval.splits sum.splits)
    qed
  qed
  with Inr show ?thesis by blast
qed

lemma placeholderName_nonempty: "placeholderName \<noteq> []"
  by (simp add: placeholderName_def js_def)

lemma findNearestStore_name_nonempty:
  "findNearestStore toNumber lat lng outcome = Some store \<Longrightarrow> name store \<noteq> []"
proof -
  assume "findNearestStore toNumber lat lng outcome = Some store"
  from findNearestStore_Some [OF this] obtain response st
    where "store = storeFromScan toNumber lat lng response st" by blast
  then show ?thesis
    using placeholderName_nonempty by (simp add: storeFromScan_def Let_def)
qed

text \<open>The constructed address is left as it is by the last sanitization.\<close>

lemma sanitizeString_searchUri:
  "sanitizeString toNumber (JStr (searchUri lat lng)) = searchUri lat lng"
proof -
  define rest where "rest = numToString lat @ js '','' @ numToString lng"
  have S: "searchUri lat lng =
      js ''https://www.google.com/maps/search/Pradhan+Mantri+Bhartiya+Janaushadhi+Kendra/@''
        @ rest @ js '',15z''"
    by (simp add: searchUri_def rest_def)
  have H: "hd (searchUri lat lng) = 0x68" unfolding S by (simp add: js_def)
  have L: "last (searchUri lat lng) = 0x7A" unfolding S by (simp add: js_def)
  have N: "searchUri lat lng \<noteq> []" unfolding S by (simp add: js_def)
  have T: "trim (searchUri lat lng) = searchUri lat lng"
    by (intro trim_fixed) (simp add: H L is_js_space_def)
  have "\<not> startsWith (trim (searchUri lat lng)) (js ''{'')"
    by (simp only: T startsWith_brace H) simp
  moreover have "trim (searchUri lat lng) \<noteq> artifact"
  proof
    assume "trim (searchUri lat lng) = artifact"
    then have "hd (searchUri lat lng) = hd artifact" by (simp only: T)
    then show False by (simp only: H artifact_chars) simp
  qed
  ultimately show ?thesis by (rule sanitizeString_plain)
qed

text \<open>
  When the loop has left no map address, the \<^verbatim>\<open>mapUri\<close> of the result is the constructed
  address, which holds the texts of the latitude and of the longitude.
\<close>

lemma storeFromScan_constructed_uri:
  "scanUri st = [] \<Longrightarrow> mapUri (storeFromScan toNumber lat lng response st) = searchUri lat lng"
  by (simp add: storeFromScan_def Let_def sanitizeString_searchUri del: sanitizeString.simps)

text \<open>
  C8. The constructed address takes the place of an empty one before the last
  sanitization, not after it. A map address of the provider that is sanitized to a
  non-empty text, which the last sanitization then reads as the JSON of an object with
  two members, gives a store whose \<^verbatim>\<open>mapUri\<close> is empty. (The name is handled the other
  way round and is never empty.)
\<close>

theorem findNearestStore_empty_mapUri:
  "\<forall>toNumber lat lng.
     findNearestStore toNumber lat lng (Inr (response_with_uri (JStr two_member_pieces))) =
       Some \<lparr> name = js ''Jan Aushadhi Kendra'',
              address = js ''Jan Aushadhi Kendra (Verified Store)'',
              mapUri = [] \<rparr>"
  by (intro allI) code_simp

text \<open>
  C9. When the response has no candidates, the list being absent or empty, the block
  under \<^verbatim>\<open>try\<close> returns \<^verbatim>\<open>null\<close> without throwing, and so does \<open>findNearestStore\<close>.
\<close>

theorem findNearestStore_no_candidates:
  "candidates response = None \<or> candidates response = Some [] \<Longrightarrow>
     findNearestStore_try toNumber lat lng (Inr response) = Inr None \<and>
     findNearestStore toNumber lat lng (Inr response) = None"
  using findNearestStore_try_empty [of response toNumber lat lng]
  by (simp add: findNearestStore_def)

theorem findNearestStore_no_candidates_witness:
  "\<forall>toNumber lat lng.
     findNearestStore_try toNumber lat lng
       (Inr \<lparr> candidates = Some [], responseText = Some (js ''none found'') \<rparr>) = Inr None \<and>
     findNearestStore toNumber lat lng
       (Inr \<lparr> candidates = Some [], responseText = Some (js ''none found'') \<rparr>) = None"
proof (intro allI)
  fix toNumber lat lng
  show "findNearestStore_try toNumber lat lng
       (Inr \<lparr> candidates = Some [], responseText = Some (js ''none found'') \<rparr>) = Inr None \<and>
     findNearestStore toNumber lat lng
       (Inr \<lparr> candidates = Some [], responseText = Some (js ''none found'') \<rparr>) = None"
    using findNearestStore_no_candidates
      [of "\<lparr> candidates = Some [], responseText = Some (js ''none found'') \<rparr>" toNumber lat lng]
    by simp
qed

text \<open>
  C10. \<open>findNearestStore\<close> never passes an exception on: when the block under
  \<^verbatim>\<open>try\<close> throws, whatever the error, the result is \<^verbatim>\<open>null\<close>, and otherwise it is what
  the block returns, a store or \<^verbatim>\<open>null\<close>. A failure of the provider gives the very result
  of a response without candidates.
\<close>

theorem findNearestStore_never_throws:
  "(findNearestStore_try toNumber lat lng outcome = Inl e \<longrightarrow>
      findNearestStore toNumber lat lng outcome = None) \<and>
   (findNearestStore_try toNumber lat lng outcome = Inr result \<longrightarrow>
      findNearestStore toNumber lat lng outcome = result) \<and>
   findNearestStore toNumber lat lng (Inl e) = None \<and>
   findNearestStore toNumber lat lng (Inl e) =
     findNearestStore toNumber lat lng (Inr \<lparr> candidates = Some [], responseText = t \<rparr>)"
  by (simp add: findNearestStore_def findNearestStore_try_def)

theorem findNearestStore_never_throws_witness:
  "\<forall>toNumber lat lng.
     findNearestStore_try toNumber lat lng
       (Inr \<lparr> candidates = Some [JObj [(js ''groundingMetadata'',
                 JObj [(js ''groundingChunks'', JArr [JNull])])]],
              responseText = None \<rparr>) = Inl TypeError \<and>
     findNearestStore toNumber lat lng
       (Inr \<lparr> candidates = Some [JObj [(js ''groundingMetadata'',
                 JObj [(js ''groundingChunks'', JArr [JNull])])]],
              responseText = None \<rparr>) = None \<and>
     findNearestStore_try toNumber lat lng (Inr \<lparr> candidates = None, responseText = None \<rparr>)
       = Inr None \<and>
     findNearestStore toNumber lat lng (Inr \<lparr> candidates = None, responseText = None \<rparr>) = None"
proof (intro allI)
  fix toNumber lat lng
  let ?bad = "Inr \<lparr> candidates = Some [JObj [(js ''groundingMetadata'',
                 JObj [(js ''groundingChunks'', JArr [JNull])])]],
              responseText = None \<rparr>"
  let ?none = "Inr \<lparr> candidates = None, responseText = None \<rparr>"
  have A: "findNearestStore_try toNumber lat lng ?bad = Inl TypeError" by code_simp
  have B: "findNearestStore_try toNumber lat lng ?none = Inr None" by code_simp
  show "findNearestStore_try toNumber lat lng ?bad = Inl TypeError \<and>
     findNearestStore toNumber lat lng ?bad = None \<and>
     findNearestStore_try toNumber lat lng ?none = Inr None \<and>
     findNearestStore toNumber lat lng ?none = None"
    using findNearestStore_never_throws [of toNumber lat lng ?bad TypeError]
      findNearestStore_never_throws [of toNumber lat lng ?none _ None] A B
    by simp
qed

end
